theory Spec2Isabelle
  imports Complex_Main "HOL-Library.Sublist"
begin

section \<open>Python text primitives used by the program\<close>

text \<open>
  Query texts and model outputs are Python \<open>str\<close> values.  They are modelled as
  \<open>string\<close>, read as sequences of ASCII characters: \<open>upper\<close>, the regular
  expression classes and \<open>strip\<close> below follow Python on the code points below 128
  and leave every other character alone (no word character, no white space, no case).
\<close>

definition ascii_lowercase :: string where
  "ascii_lowercase = ''abcdefghijklmnopqrstuvwxyz''"

definition ascii_uppercase :: string where
  "ascii_uppercase = ''ABCDEFGHIJKLMNOPQRSTUVWXYZ''"

definition digits :: string where
  "digits = ''0123456789''"

text \<open>\<open>str.isspace\<close> on ASCII: blank, TAB, LF, VT, FF, CR and the separators 0x1C to 0x1F.\<close>

definition space_chars :: string where
  "space_chars = [CHR '' '', CHR 0x09, CHR 0x0A, CHR 0x0B, CHR 0x0C, CHR 0x0D,
                  CHR 0x1C, CHR 0x1D, CHR 0x1E, CHR 0x1F]"

definition is_space :: "char \<Rightarrow> bool" where
  "is_space c = (c \<in> set space_chars)"

text \<open>The class \<open>\w\<close> of the \<open>re\<close> module on ASCII: letters, digits and the underscore.\<close>

definition is_word :: "char \<Rightarrow> bool" where
  "is_word c = (c \<in> set (ascii_lowercase @ ascii_uppercase @ digits @ ''_''))"

definition upper_char :: "char \<Rightarrow> char" where
  "upper_char c = (case map_of (zip ascii_lowercase ascii_uppercase) c of Some C \<Rightarrow> C | None \<Rightarrow> c)"

text \<open>\<open>s.upper()\<close>\<close>

definition upper :: "string \<Rightarrow> string" where
  "upper s = map upper_char s"

text \<open>\<open>sub in s\<close> on strings: \<open>sub\<close> occurs in \<open>s\<close> as a contiguous piece.\<close>

fun py_in :: "string \<Rightarrow> string \<Rightarrow> bool" where
  "py_in sub [] = (sub = [])"
| "py_in sub (c # cs) = (prefix sub (c # cs) \<or> py_in sub cs)"

text \<open>\<open>s.strip()\<close> and \<open>s.rstrip(chars)\<close> for a one-character \<open>chars\<close>.\<close>

definition py_strip :: "string \<Rightarrow> string" where
  "py_strip s = rev (dropWhile is_space (rev (dropWhile is_space s)))"

definition py_rstrip_char :: "char \<Rightarrow> string \<Rightarrow> string" where
  "py_rstrip_char c s = rev (dropWhile (\<lambda>x. x = c) (rev s))"

text \<open>
  \<open>s.split(sep)\<close> for a non-empty separator: the pieces between the occurrences of
  \<open>sep\<close>, found from left to right without overlap.  \<open>split_aux sep k cur s\<close> still has
  \<open>k\<close> characters of a separator to skip and has read \<open>cur\<close> (reversed) of the piece.
\<close>

fun split_aux :: "string \<Rightarrow> nat \<Rightarrow> string \<Rightarrow> string \<Rightarrow> string list" where
  "split_aux sep k cur [] = [rev cur]"
| "split_aux sep (Suc k) cur (c # cs) = split_aux sep k cur cs"
| "split_aux sep 0 cur (c # cs) =
     (if prefix sep (c # cs) then rev cur # split_aux sep (length sep - 1) [] cs
      else split_aux sep 0 (c # cur) cs)"

definition py_split :: "string \<Rightarrow> string \<Rightarrow> string list" where
  "py_split sep s = split_aux sep 0 [] s"

text \<open>\<open>sep.join(parts)\<close>\<close>

fun py_join :: "string \<Rightarrow> string list \<Rightarrow> string" where
  "py_join sep [] = []"
| "py_join sep [p] = p"
| "py_join sep (p # q # ps) = p @ sep @ py_join sep (q # ps)"

text \<open>\<open>str(n)\<close> for an integer, as the f-strings of the program format their numbers.\<close>

fun str_nat :: "nat \<Rightarrow> string" where
  "str_nat n = (if n < 10 then [digits ! n] else str_nat (n div 10) @ [digits ! (n mod 10)])"

declare str_nat.simps [simp del]

definition str_int :: "int \<Rightarrow> string" where
  "str_int i = (if i < 0 then ''-'' @ str_nat (nat (- i)) else str_nat (nat i))"

subsection \<open>The patterns \<open>\bKEYWORD\b\<close>\<close>

text \<open>
  \<open>\b\<close> holds at position \<open>p\<close> of \<open>s\<close> when exactly one of the characters before and
  after \<open>p\<close> is a word character (the ends of the text count as non-word).
\<close>

definition word_at :: "string \<Rightarrow> nat \<Rightarrow> bool" where
  "word_at s p = (p < length s \<and> is_word (s ! p))"

definition boundary :: "string \<Rightarrow> nat \<Rightarrow> bool" where
  "boundary s p = ((0 < p \<and> word_at s (p - 1)) \<noteq> word_at s p)"

definition match_at :: "string \<Rightarrow> string \<Rightarrow> nat \<Rightarrow> bool" where
  "match_at kw s i =
     (boundary s i \<and> take (length kw) (drop i s) = kw \<and> boundary s (i + length kw))"

text \<open>\<open>re.search(r'\b' + re.escape(kw) + r'\b', s)\<close> finds a match.\<close>

definition re_search_word :: "string \<Rightarrow> string \<Rightarrow> bool" where
  "re_search_word kw s = list_ex (match_at kw s) [0..<Suc (length s)]"

text \<open>
  \<open>len(re.findall(r'\bKW\b', s))\<close>: the matches are taken from left to right and do
  not overlap; \<open>nxt\<close> is the first position the next match may start at.
\<close>

fun count_matches :: "string \<Rightarrow> string \<Rightarrow> nat list \<Rightarrow> nat \<Rightarrow> nat" where
  "count_matches kw s [] nxt = 0"
| "count_matches kw s (i # is) nxt =
     (if nxt \<le> i \<and> match_at kw s i then Suc (count_matches kw s is (i + length kw))
      else count_matches kw s is nxt)"

definition findall_count :: "string \<Rightarrow> string \<Rightarrow> nat" where
  "findall_count kw s = count_matches kw s [0..<Suc (length s)] 0"

section \<open>Exceptions\<close>

text \<open>
  An exception carries the text \<open>str(e)\<close>.  The two classes are the ones the handlers
  of the program tell apart: \<open>SQLAlchemyError\<close> and any other \<open>Exception\<close>.
\<close>

datatype exn = SQLAlchemyError string | OtherException string

fun exn_str :: "exn \<Rightarrow> string" where
  "exn_str (SQLAlchemyError m) = m"
| "exn_str (OtherException m) = m"

section \<open>RateLimiter\<close>

text \<open>
  \<open>requests\<close> is a \<open>defaultdict(list)\<close>: every identity has a window, empty until
  written.  Time stamps are the values of \<open>time.time()\<close>, taken as real numbers.
\<close>

record rate_limiter =
  max_requests :: int
  time_window :: int
  requests :: "string \<Rightarrow> real list"

definition RateLimiter_init :: "int \<Rightarrow> int \<Rightarrow> rate_limiter" where
  "RateLimiter_init n w = \<lparr>max_requests = n, time_window = w, requests = (\<lambda>u. [])\<rparr>"

text \<open>\<open>allow_request\<close>, with the reading \<open>current_time\<close> of the clock as an argument.\<close>

definition allow_request :: "rate_limiter \<Rightarrow> real \<Rightarrow> string \<Rightarrow> bool \<times> rate_limiter" where
  "allow_request rl current_time user_id =
     (let kept = filter (\<lambda>req_time. current_time - req_time < real_of_int (time_window rl))
                        (requests rl user_id);
          rl1 = rl\<lparr>requests := (requests rl)(user_id := kept)\<rparr>
      in if max_requests rl \<le> int (length kept) then (False, rl1)
         else (True, rl1\<lparr>requests := (requests rl1)(user_id := kept @ [current_time])\<rparr>))"

text \<open>
  A sequence of calls \<open>(identity, time)\<close> against one limiter; the log records for each
  call whether it was admitted.
\<close>

definition process_call ::
  "rate_limiter \<times> (string \<times> real \<times> bool) list \<Rightarrow> string \<times> real
     \<Rightarrow> rate_limiter \<times> (string \<times> real \<times> bool) list" where
  "process_call st call =
     (let (ok, rl') = allow_request (fst st) (snd call) (fst call)
      in (rl', snd st @ [(fst call, snd call, ok)]))"

definition run_calls ::
  "rate_limiter \<Rightarrow> (string \<times> real) list \<Rightarrow> rate_limiter \<times> (string \<times> real \<times> bool) list" where
  "run_calls rl calls = foldl process_call (rl, []) calls"

text \<open>The admitted calls of \<open>u\<close> in the log with a time stamp in \<open>(lo, hi]\<close>.\<close>

definition admitted_in :: "(string \<times> real \<times> bool) list \<Rightarrow> string \<Rightarrow> real \<Rightarrow> real \<Rightarrow> nat" where
  "admitted_in entries u lo hi =
     length (filter (\<lambda>e. fst e = u \<and> snd (snd e) \<and> lo < fst (snd e) \<and> fst (snd e) \<le> hi) entries)"

text \<open>The admitted calls of \<open>u\<close> in the log with a time stamp after \<open>lo\<close>.\<close>

definition admitted_after :: "(string \<times> real \<times> bool) list \<Rightarrow> string \<Rightarrow> real \<Rightarrow> nat" where
  "admitted_after entries u lo =
     length (filter (\<lambda>e. fst e = u \<and> snd (snd e) \<and> lo < fst (snd e)) entries)"

definition calls_of :: "string \<Rightarrow> (string \<times> 'a) list \<Rightarrow> (string \<times> 'a) list" where
  "calls_of u xs = filter (\<lambda>e. fst e = u) xs"

section \<open>SQLQueryValidator\<close>

definition BLOCKED_KEYWORDS :: "string list" where
  "BLOCKED_KEYWORDS =
     [''DROP'', ''DELETE'', ''UPDATE'', ''INSERT'', ''ALTER'', ''CREATE'',
      ''TRUNCATE'', ''GRANT'', ''REVOKE'', ''EXEC'', ''EXECUTE'',
      ''INTO OUTFILE'', ''LOAD_FILE'', ''LOAD DATA'', ''BACKUP'']"

definition MAX_QUERY_LENGTH :: nat where
  "MAX_QUERY_LENGTH = 2000"

definition MAX_TABLES :: nat where
  "MAX_TABLES = 5"

datatype verdict = Valid | Invalid string

text \<open>
  The library \<open>sqlparse\<close> is not part of the program; it is a parameter.  On a text it
  raises (\<open>Inl\<close>), returns no statement (\<open>Inr None\<close>), or returns statements of which
  the first has the type \<open>t\<close> reported by \<open>get_type()\<close> (\<open>Inr (Some t)\<close>).
\<close>

type_synonym sql_parser = "string \<Rightarrow> exn + string option"

text \<open>The loop over \<open>BLOCKED_KEYWORDS\<close>: the first keyword of the list that matches.\<close>

definition blocked_keyword :: "string \<Rightarrow> string option" where
  "blocked_keyword query = find (\<lambda>keyword. re_search_word keyword (upper query)) BLOCKED_KEYWORDS"

definition count_tables :: "string \<Rightarrow> nat" where
  "count_tables query = findall_count ''FROM'' (upper query) + findall_count ''JOIN'' (upper query)"

text \<open>
  \<open>validate\<close>.  The identity is \<open>None\<close> or a string; an empty string is falsy, so the
  limiter is asked only for a non-empty identity.  The state of the limiter is returned.
\<close>

definition validate ::
  "sql_parser \<Rightarrow> rate_limiter \<Rightarrow> real \<Rightarrow> string \<Rightarrow> string option \<Rightarrow> verdict \<times> rate_limiter" where
  "validate sqlparse rl now query user_id =
     (let (allowed, rl') =
            (case user_id of
               None \<Rightarrow> (True, rl)
             | Some u \<Rightarrow> if u = [] then (True, rl) else allow_request rl now u)
      in if \<not> allowed then
           (Invalid ''Rate limit exceeded. Please wait before making more queries.'', rl')
         else if MAX_QUERY_LENGTH < length query then
           (Invalid (''Query too long. Maximum length is '' @ str_nat MAX_QUERY_LENGTH
                       @ '' characters.''), rl')
         else if query = [] \<or> py_strip query = [] then
           (Invalid ''Query cannot be empty.'', rl')
         else
           (case sqlparse query of
              Inl e \<Rightarrow> (Invalid (''SQL parsing error: '' @ exn_str e), rl')
            | Inr None \<Rightarrow> (Invalid ''Invalid SQL syntax.'', rl')
            | Inr (Some query_type) \<Rightarrow>
                if query_type \<noteq> ''SELECT'' then
                  (Invalid (''Only SELECT queries are allowed. Found: '' @ query_type), rl')
                else
                  (case blocked_keyword query of
                     Some keyword \<Rightarrow> (Invalid (''Blocked keyword detected: '' @ keyword), rl')
                   | None \<Rightarrow>
                       if py_in ''--'' query \<or> py_in ''/*'' query \<or> py_in ''*/'' query then
                         (Invalid ''SQL comments are not allowed.'', rl')
                       else if py_in '';'' (py_rstrip_char CHR '';'' query) then
                         (Invalid ''Multiple SQL statements are not allowed.'', rl')
                       else if MAX_TABLES < count_tables query then
                         (Invalid (''Too many tables in query. Maximum is '' @ str_nat MAX_TABLES
                                     @ ''.''), rl')
                       else (Valid, rl'))))"

subsection \<open>Notions used to state the properties of \<open>validate\<close>\<close>

text \<open>The first check refuses: the identity is non-empty and the limiter denies it.\<close>

definition rate_limited :: "rate_limiter \<Rightarrow> real \<Rightarrow> string option \<Rightarrow> bool" where
  "rate_limited rl now user_id =
     (case user_id of None \<Rightarrow> False | Some u \<Rightarrow> u \<noteq> [] \<and> \<not> fst (allow_request rl now u))"

text \<open>The limiter after \<open>validate\<close>: it is touched only for a non-empty identity.\<close>

definition limiter_after :: "rate_limiter \<Rightarrow> real \<Rightarrow> string option \<Rightarrow> rate_limiter" where
  "limiter_after rl now user_id =
     (case user_id of None \<Rightarrow> rl | Some u \<Rightarrow> if u = [] then rl else snd (allow_request rl now u))"

definition has_comment_marker :: "string \<Rightarrow> bool" where
  "has_comment_marker query = (py_in ''--'' query \<or> py_in ''/*'' query \<or> py_in ''*/'' query)"

text \<open>The verdict of the checks 2 to 9, which read the text only.\<close>

definition text_verdict :: "sql_parser \<Rightarrow> string \<Rightarrow> verdict" where
  "text_verdict sqlparse query =
     (if MAX_QUERY_LENGTH < length query then
        Invalid (''Query too long. Maximum length is '' @ str_nat MAX_QUERY_LENGTH @ '' characters.'')
      else if query = [] \<or> py_strip query = [] then Invalid ''Query cannot be empty.''
      else
        (case sqlparse query of
           Inl e \<Rightarrow> Invalid (''SQL parsing error: '' @ exn_str e)
         | Inr None \<Rightarrow> Invalid ''Invalid SQL syntax.''
         | Inr (Some query_type) \<Rightarrow>
             if query_type \<noteq> ''SELECT'' then
               Invalid (''Only SELECT queries are allowed. Found: '' @ query_type)
             else
               (case blocked_keyword query of
                  Some keyword \<Rightarrow> Invalid (''Blocked keyword detected: '' @ keyword)
                | None \<Rightarrow>
                    if has_comment_marker query then Invalid ''SQL comments are not allowed.''
                    else if py_in '';'' (py_rstrip_char CHR '';'' query) then
                      Invalid ''Multiple SQL statements are not allowed.''
                    else if MAX_TABLES < count_tables query then
                      Invalid (''Too many tables in query. Maximum is '' @ str_nat MAX_TABLES @ ''.'')
                    else Valid)))"

text \<open>
  A parser double for the closed examples, all of which are texts that start with
  \<open>SELECT\<close>: it reports one statement of type \<open>SELECT\<close>.
\<close>

definition select_parser :: sql_parser where
  "select_parser query = Inr (Some ''SELECT'')"

section \<open>SecureSQLExecutor\<close>

text \<open>
  A \<open>dict\<close> keeps its keys in the order of their first insertion; a later value for a
  key replaces the earlier one.  \<open>py_dict kvs\<close> is \<open>dict(kvs)\<close>.
\<close>

fun dict_set :: "('k \<times> 'v) list \<Rightarrow> 'k \<Rightarrow> 'v \<Rightarrow> ('k \<times> 'v) list" where
  "dict_set [] k v = [(k, v)]"
| "dict_set ((k', v') # d) k v = (if k' = k then (k', v) # d else (k', v') # dict_set d k v)"

definition py_dict :: "('k \<times> 'v) list \<Rightarrow> ('k \<times> 'v) list" where
  "py_dict kvs = foldl (\<lambda>d kv. dict_set d (fst kv) (snd kv)) [] kvs"

text \<open>
  The engine, the connection and the cursor are outside the program: the driver is a
  parameter.  Given the text handed to \<open>connection.execute\<close> it raises (\<open>Inl\<close>) or
  returns the column names and the rows.
\<close>

type_synonym 'v driver = "string \<Rightarrow> exn + (string list \<times> 'v list list)"

datatype 'v exec_result =
  Success "(string \<times> 'v) list list" nat
| Failure string

text \<open>
  The outcome of \<open>execute_query\<close>: the returned dictionary, the state of the limiter
  afterwards, and the texts that were handed to the driver.
\<close>

record 'v exec_outcome =
  result :: "'v exec_result"
  limiter :: rate_limiter
  submitted :: "string list"

text \<open>The rewrite at the head of the \<open>try\<close> block: add a \<open>LIMIT\<close> clause if not present.\<close>

definition add_limit :: "string \<Rightarrow> int \<Rightarrow> string" where
  "add_limit query max_rows =
     (if \<not> py_in ''LIMIT'' (upper query)
      then py_rstrip_char CHR '';'' query @ '' LIMIT '' @ str_int max_rows
      else query)"

definition execute_query ::
  "sql_parser \<Rightarrow> 'v driver \<Rightarrow> rate_limiter \<Rightarrow> real \<Rightarrow> string \<Rightarrow> string option \<Rightarrow> int
     \<Rightarrow> 'v exec_outcome" where
  "execute_query sqlparse driver rl now query user_id max_rows =
     (case validate sqlparse rl now query user_id of
        (Invalid err, rl') \<Rightarrow> \<lparr>result = Failure err, limiter = rl', submitted = []\<rparr>
      | (Valid, rl') \<Rightarrow>
          (let query' = add_limit query max_rows
           in case driver query' of
                Inr (columns, rows) \<Rightarrow>
                  (let data = map (\<lambda>row. py_dict (zip columns row)) rows
                   in \<lparr>result = Success data (length data), limiter = rl', submitted = [query']\<rparr>)
              | Inl (SQLAlchemyError m) \<Rightarrow>
                  \<lparr>result = Failure (''Database error: '' @ m), limiter = rl', submitted = [query']\<rparr>
              | Inl (OtherException m) \<Rightarrow>
                  \<lparr>result = Failure (''Unexpected error: '' @ m), limiter = rl',
                    submitted = [query']\<rparr>))"

subsection \<open>The tool \<open>query_database\<close>\<close>

text \<open>
  The two symbols U+274C and U+2713 that open the messages of \<open>run_query\<close> have no
  character of their own in \<open>string\<close>; each is one character of the Python text and
  is written here as one reserved character.
\<close>

definition CROSS_MARK :: string where
  "CROSS_MARK = [CHR 0xFE]"

definition CHECK_MARK :: string where
  "CHECK_MARK = [CHR 0xFF]"

text \<open>\<open>str(row.get(h, ''))\<close>, with \<open>str\<close> on the values of the database as a parameter.\<close>

definition cell :: "('v \<Rightarrow> string) \<Rightarrow> (string \<times> 'v) list \<Rightarrow> string \<Rightarrow> string" where
  "cell str_v row h = (case map_of row h of Some v \<Rightarrow> str_v v | None \<Rightarrow> [])"

definition run_query ::
  "sql_parser \<Rightarrow> 'v driver \<Rightarrow> ('v \<Rightarrow> string) \<Rightarrow> rate_limiter \<Rightarrow> real \<Rightarrow> string
     \<Rightarrow> string \<times> rate_limiter \<times> string list" where
  "run_query sqlparse driver str_v rl now query =
     (let out = execute_query sqlparse driver rl now query (Some ''default_user'') 100;
          text =
            (case result out of
               Failure err \<Rightarrow> CROSS_MARK @ '' Query failed: '' @ err
             | Success data row_count \<Rightarrow>
                 if data = [] then
                   CHECK_MARK @ '' Query executed successfully but returned no results.''
                 else
                   (let output0 = CHECK_MARK @ '' Query returned '' @ str_nat row_count
                                    @ '' row(s):'' @ [CHR 0x0A, CHR 0x0A];
                        headers = map fst (hd data);
                        output1 = output0 @ py_join '' | '' headers @ [CHR 0x0A];
                        output2 = output1 @ replicate (length output1 - 2) CHR ''-'' @ [CHR 0x0A];
                        output3 = foldl (\<lambda>output row.
                                     output @ py_join '' | '' (map (cell str_v row) headers)
                                       @ [CHR 0x0A])
                                   output2 (take 10 data)
                    in if 10 < row_count
                       then output3 @ [CHR 0x0A] @ ''... and '' @ str_nat (row_count - 10)
                              @ '' more rows''
                       else output3))
      in (text, limiter out, submitted out))"

text \<open>
  \<open>create_sql_query_tool\<close> builds a \<open>SecureSQLExecutor\<close>, whose \<open>__init__\<close> builds a
  \<open>SQLQueryValidator\<close>, whose \<open>__init__\<close> builds \<open>RateLimiter(max_requests=10,
  time_window=60)\<close>.  This fresh limiter is the only state that the closure \<open>run_query\<close>
  of the tool keeps and changes; it is the state of the tool when it is built.
  \<open>create_agent\<close> builds the tool anew, and \<open>stream_agent_response\<close> calls
  \<open>create_agent\<close> for every message.
\<close>

definition create_sql_query_tool :: rate_limiter where
  "create_sql_query_tool = RateLimiter_init 10 60"

text \<open>
  The invocations \<open>(query, time)\<close> made one after the other through one tool: each works
  on the limiter left by the one before.  The texts returned are collected in order.
\<close>

fun run_queries ::
  "sql_parser \<Rightarrow> 'v driver \<Rightarrow> ('v \<Rightarrow> string) \<Rightarrow> rate_limiter \<Rightarrow> (string \<times> real) list
     \<Rightarrow> string list \<times> rate_limiter" where
  "run_queries sqlparse driver str_v rl [] = ([], rl)"
| "run_queries sqlparse driver str_v rl ((query, now) # calls) =
     (let r = run_query sqlparse driver str_v rl now query;
          rest = run_queries sqlparse driver str_v (fst (snd r)) calls
      in (fst r # fst rest, snd rest))"

text \<open>The text that \<open>run_query\<close> returns when the limiter refuses the request.\<close>

definition RATE_LIMIT_REFUSAL :: string where
  "RATE_LIMIT_REFUSAL =
     CROSS_MARK @ '' Query failed: Rate limit exceeded. Please wait before making more queries.''"

text \<open>
  The invocations with a time in \<open>(lo, hi]\<close> that the limiter let through: their text
  is not the refusal.
\<close>

definition served_in :: "string list \<Rightarrow> (string \<times> real) list \<Rightarrow> real \<Rightarrow> real \<Rightarrow> nat" where
  "served_in outputs calls lo hi =
     length (filter (\<lambda>p. fst p \<noteq> RATE_LIMIT_REFUSAL \<and> lo < snd (snd p) \<and> snd (snd p) \<le> hi)
               (zip outputs calls))"

subsection \<open>Database doubles for closed examples\<close>

text \<open>
  \<open>table_driver columns rows\<close> stands for a database with one table: it returns the
  rows of the table and honours a clause \<open>LIMIT n\<close> at the end of the text.
  \<open>failing_driver e\<close> raises \<open>e\<close> on every text.
\<close>

fun parse_nat_aux :: "nat \<Rightarrow> string \<Rightarrow> nat option" where
  "parse_nat_aux n [] = Some n"
| "parse_nat_aux n (c # cs) =
     (case map_of (zip digits [0..<10]) c of
        None \<Rightarrow> None
      | Some d \<Rightarrow> parse_nat_aux (10 * n + d) cs)"

definition trailing_limit :: "string \<Rightarrow> nat option" where
  "trailing_limit text =
     (let ws = py_split '' '' text
      in if 2 \<le> length ws \<and> upper (ws ! (length ws - 2)) = ''LIMIT'' \<and> last ws \<noteq> []
         then parse_nat_aux 0 (last ws) else None)"

definition table_driver :: "string list \<Rightarrow> 'v list list \<Rightarrow> 'v driver" where
  "table_driver columns rows text =
     Inr (columns, case trailing_limit text of Some n \<Rightarrow> take n rows | None \<Rightarrow> rows)"

definition failing_driver :: "exn \<Rightarrow> 'v driver" where
  "failing_driver e text = Inl e"

section \<open>The agent loop\<close>

text \<open>
  The model and the tools are outside the program and may answer differently from call
  to call: both act on a state \<open>'w\<close> of the world, and both may raise.
\<close>

record 'w tool =
  name :: string
  description :: string
  func :: "string \<Rightarrow> 'w \<Rightarrow> (exn + string) \<times> 'w"

record invoke_args =
  arg_input :: string
  arg_chat_history :: string
  arg_agent_scratchpad :: string
  arg_tools :: string
  arg_tool_names :: string

text \<open>\<open>agent.invoke\<close>, returning the text of the response.\<close>

type_synonym 'w agent = "invoke_args \<Rightarrow> 'w \<Rightarrow> (exn + string) \<times> 'w"

text \<open>\<open>tool_map = {tool.name: tool for tool in tools}\<close>\<close>

definition tool_map :: "'w tool list \<Rightarrow> (string \<times> 'w tool) list" where
  "tool_map tools = py_dict (map (\<lambda>tool. (name tool, tool)) tools)"

definition action_part :: "string \<Rightarrow> string" where
  "action_part response =
     py_strip (py_split ''Action Input:'' (py_split ''Action:'' response ! 1) ! 0)"

definition action_input_part :: "string \<Rightarrow> string" where
  "action_input_part response =
     py_strip (py_split [CHR 0x0A] (py_split ''Action Input:'' response ! 1) ! 0)"

definition iteration_error :: "exn \<Rightarrow> string" where
  "iteration_error e = ''I encountered an error while processing your request: '' @ exn_str e"

definition unknown_tool_observation :: "string \<Rightarrow> string list \<Rightarrow> string" where
  "unknown_tool_observation action keys =
     ''Error - Tool '' @ [CHR 0x27] @ action @ [CHR 0x27] @ '' not found. Available tools: ''
       @ py_join '', '' keys"

text \<open>
  One pass through the body of the loop: it returns from the function or goes on with a
  new scratchpad.
\<close>

datatype step = Return string | Continue string

text \<open>The dictionary handed to \<open>agent.invoke\<close>.\<close>

definition prompt_args :: "'w tool list \<Rightarrow> string \<Rightarrow> string \<Rightarrow> string \<Rightarrow> invoke_args" where
  "prompt_args tools input_text chat_history agent_scratchpad =
     \<lparr>arg_input = input_text, arg_chat_history = chat_history,
      arg_agent_scratchpad = agent_scratchpad,
      arg_tools = py_join [CHR 0x0A] (map (\<lambda>tool. name tool @ '': '' @ description tool) tools),
      arg_tool_names = py_join '', '' (map name tools)\<rparr>"

definition agent_iteration ::
  "'w agent \<Rightarrow> 'w tool list \<Rightarrow> string \<Rightarrow> string \<Rightarrow> string \<Rightarrow> 'w \<Rightarrow> step \<times> 'w" where
  "agent_iteration agent tools input_text chat_history agent_scratchpad w =
     (case agent (prompt_args tools input_text chat_history agent_scratchpad) w of
        (Inl e, w1) \<Rightarrow> (Return (iteration_error e), w1)
      | (Inr response, w1) \<Rightarrow>
          if py_in ''Final Answer:'' response then
            (Return (py_strip (last (py_split ''Final Answer:'' response))), w1)
          else if py_in ''Action:'' response \<and> py_in ''Action Input:'' response then
            (case map_of (tool_map tools) (action_part response) of
               Some tool \<Rightarrow>
                 (case func tool (action_input_part response) w1 of
                    (Inl e, w2) \<Rightarrow> (Return (iteration_error e), w2)
                  | (Inr observation, w2) \<Rightarrow>
                      (Continue (agent_scratchpad @ [CHR 0x0A] @ response @ [CHR 0x0A]
                                   @ ''Observation: '' @ observation @ [CHR 0x0A]
                                   @ ''Thought: ''), w2))
             | None \<Rightarrow>
                 (Continue (agent_scratchpad @ [CHR 0x0A] @ response @ [CHR 0x0A]
                              @ ''Observation: ''
                              @ unknown_tool_observation (action_part response)
                                  (map fst (tool_map tools))
                              @ [CHR 0x0A] @ ''Thought: ''), w1))
          else (Return (py_strip (last (py_split ''Thought:'' response))), w1))"

definition REPHRASE :: string where
  "REPHRASE = ''I'' @ [CHR 0x27] @ ''ve reached my thinking limit. Could you rephrase your question or break it into smaller parts?''"

text \<open>
  The result of \<open>execute_agent\<close>: the returned text, with the number of passes through
  the loop that were started and the state of the world afterwards.
\<close>

record 'w episode =
  answer :: string
  iterations :: nat
  world :: 'w

text \<open>\<open>agent_loop n k\<close> runs the \<open>n\<close> passes that remain after \<open>k\<close> passes.\<close>

fun agent_loop ::
  "'w agent \<Rightarrow> 'w tool list \<Rightarrow> string \<Rightarrow> string \<Rightarrow> nat \<Rightarrow> nat \<Rightarrow> string \<Rightarrow> 'w \<Rightarrow> 'w episode" where
  "agent_loop agent tools input_text chat_history 0 k agent_scratchpad w =
     \<lparr>answer = REPHRASE, iterations = k, world = w\<rparr>"
| "agent_loop agent tools input_text chat_history (Suc n) k agent_scratchpad w =
     (case agent_iteration agent tools input_text chat_history agent_scratchpad w of
        (Return text, w') \<Rightarrow> \<lparr>answer = text, iterations = Suc k, world = w'\<rparr>
      | (Continue scratchpad', w') \<Rightarrow>
          agent_loop agent tools input_text chat_history n (Suc k) scratchpad' w')"

text \<open>\<open>range(max_iterations)\<close> is empty for a negative budget.\<close>

definition execute_agent ::
  "'w agent \<Rightarrow> 'w tool list \<Rightarrow> string \<Rightarrow> string \<Rightarrow> int \<Rightarrow> 'w \<Rightarrow> 'w episode" where
  "execute_agent agent tools input_text chat_history max_iterations w =
     agent_loop agent tools input_text chat_history (nat max_iterations) 0 [] w"

subsection \<open>Model and tool doubles for closed examples\<close>

text \<open>
  \<open>scripted_agent response\<close> answers every call with \<open>response\<close>; \<open>echo_tool n\<close> is a
  tool named \<open>n\<close> whose observation is its input; \<open>raising_tool n\<close> raises on every
  input.  The world of the doubles counts the calls of tools.
\<close>

definition scripted_agent :: "string \<Rightarrow> nat agent" where
  "scripted_agent response args w = (Inr response, w)"

definition echo_tool :: "string \<Rightarrow> nat tool" where
  "echo_tool n = \<lparr>name = n, description = ''echo'', func = (\<lambda>x w. (Inr x, Suc w))\<rparr>"

definition raising_tool :: "string \<Rightarrow> nat tool" where
  "raising_tool n =
     \<lparr>name = n, description = ''raises'',
      func = (\<lambda>x w. (Inl (OtherException ''connection lost''), Suc w))\<rparr>"

text \<open>
  Doubles whose world is the pair of the numbers of calls of the model and of calls of
  tools made so far.  \<open>counting_agent response\<close> answers every call with \<open>response\<close>;
  \<open>self_correcting_agent\<close> names the unknown tool \<open>drop_all\<close> until its scratchpad lists
  the available tools, and then gives a final answer; \<open>counting_tool n\<close> is a tool named
  \<open>n\<close> whose observation is its input.
\<close>

definition counting_agent :: "string \<Rightarrow> (nat \<times> nat) agent" where
  "counting_agent response args w = (Inr response, (Suc (fst w), snd w))"

definition self_correcting_agent :: "(nat \<times> nat) agent" where
  "self_correcting_agent args w =
     (Inr (if py_in ''Available tools:'' (arg_agent_scratchpad args)
           then ''Final Answer: 42''
           else ''Action: drop_all'' @ [CHR 0x0A] @ ''Action Input: x''),
      (Suc (fst w), snd w))"

definition counting_tool :: "string \<Rightarrow> (nat \<times> nat) tool" where
  "counting_tool n =
     \<lparr>name = n, description = ''echo'', func = (\<lambda>x w. (Inr x, (fst w, Suc (snd w))))\<rparr>"

section \<open>Facts about the text primitives\<close>

lemmas char_tables = ascii_lowercase_def ascii_uppercase_def digits_def space_chars_def
lemmas text_defs = upper_def upper_char_def is_word_def is_space_def char_tables
  py_strip_def py_rstrip_char_def
lemmas re_defs = re_search_word_def match_at_def boundary_def word_at_def findall_count_def

lemma re_search_wordI: "match_at kw s i \<Longrightarrow> i \<le> length s \<Longrightarrow> re_search_word kw s"
  unfolding re_search_word_def list_ex_iff by (rule bexI[of _ i]) auto

lemma upper_char_space_chars: "\<forall>c\<in>set space_chars. upper_char c = c"
  by (simp add: upper_char_def char_tables)

lemma is_space_upper_char: "is_space c \<Longrightarrow> upper_char c = c"
  using upper_char_space_chars by (simp add: is_space_def)

lemma dropWhile_all: "(\<forall>x\<in>set (dropWhile P s). P x) \<longleftrightarrow> (\<forall>x\<in>set s. P x)"
  by (induction s) auto

lemma py_strip_empty_iff: "py_strip s = [] \<longleftrightarrow> (\<forall>c\<in>set s. is_space c)"
  by (simp add: py_strip_def dropWhile_eq_Nil_conv dropWhile_all)

lemma blocked_hd_all: "\<forall>kw\<in>set BLOCKED_KEYWORDS. kw \<noteq> [] \<and> \<not> is_space (hd kw)"
  by (simp add: BLOCKED_KEYWORDS_def is_space_def space_chars_def)

lemma match_not_blank:
  assumes "kw \<in> set BLOCKED_KEYWORDS" and "re_search_word kw (upper query)"
  shows "py_strip query \<noteq> []"
proof -
  from assms(2) obtain i where m: "take (length kw) (drop i (upper query)) = kw"
    by (auto simp: re_search_word_def list_ex_iff match_at_def)
  from assms(1) have kw: "kw \<noteq> []" "\<not> is_space (hd kw)"
    using blocked_hd_all by auto
  from m kw(1) have "drop i (upper query) \<noteq> []" by auto
  then have i: "i < length query" by (simp add: upper_def)
  from m kw(1) have "hd kw = hd (drop i (upper query))"
    by (metis hd_take length_greater_0_conv)
  also have "\<dots> = upper_char (query ! i)"
    using i by (simp add: hd_drop_conv_nth upper_def)
  finally have "\<not> is_space (upper_char (query ! i))" using kw(2) by simp
  then have "\<not> is_space (query ! i)" using is_space_upper_char by fastforce
  then show ?thesis using i by (auto simp: py_strip_empty_iff)
qed

lemma py_in_refl: "py_in s s"
  by (cases s) simp_all

lemma py_in_append: "py_in sub (p @ sub)"
  by (induction p) (simp_all add: py_in_refl)

lemma split_aux_nonempty: "split_aux sep k cur s \<noteq> []"
  by (induction sep k cur s rule: split_aux.induct) auto

lemma split_aux_two:
  "py_in sep (drop k s) \<Longrightarrow> sep \<noteq> [] \<Longrightarrow> 2 \<le> length (split_aux sep k cur s)"
proof (induction sep k cur s rule: split_aux.induct)
  case (1 sep k cur)
  then show ?case by simp
next
  case (2 sep k cur c cs)
  then show ?case by simp
next
  case (3 sep cur c cs)
  show ?case
  proof (cases "prefix sep (c # cs)")
    case True
    have "1 \<le> length (split_aux sep (length sep - 1) [] cs)"
      using split_aux_nonempty[of sep "length sep - 1" "[]" cs]
      by (cases "split_aux sep (length sep - 1) [] cs") auto
    then show ?thesis using True by simp
  next
    case False
    then show ?thesis using 3 by simp
  qed
qed

text \<open>
  A split has at least one piece, and at least two when the separator occurs: the reads
  \<open>[0]\<close>, \<open>[-1]\<close> and, behind a test for the marker, \<open>[1]\<close> of the agent loop are
  always in range.
\<close>

lemma py_split_nonempty: "py_split sep s \<noteq> []"
  by (simp add: py_split_def split_aux_nonempty)

lemma py_split_two: "py_in sep s \<Longrightarrow> sep \<noteq> [] \<Longrightarrow> 1 < length (py_split sep s)"
  using split_aux_two[of sep 0 s "[]"] by (simp add: py_split_def)

lemma split_aux_absent:
  "\<not> py_in sep s \<Longrightarrow> sep \<noteq> [] \<Longrightarrow> split_aux sep 0 cur s = [rev cur @ s]"
  by (induction s arbitrary: cur) auto

lemma py_split_absent: "\<not> py_in sep s \<Longrightarrow> sep \<noteq> [] \<Longrightarrow> py_split sep s = [s]"
  by (simp add: py_split_def split_aux_absent)


section \<open>Properties of the validator\<close>

lemma validate_eq:
  "validate sqlparse rl now query user_id =
     (if rate_limited rl now user_id
      then Invalid ''Rate limit exceeded. Please wait before making more queries.''
      else text_verdict sqlparse query,
      limiter_after rl now user_id)"
proof -
  have pure: "\<And>r. validate sqlparse r now query None = (text_verdict sqlparse query, r)"
    by (simp add: validate_def text_verdict_def has_comment_marker_def
          split: sum.split option.split)
  show ?thesis
  proof (cases user_id)
    case None
    then show ?thesis using pure by (simp add: rate_limited_def limiter_after_def)
  next
    case (Some u)
    obtain ok rl' where a: "allow_request rl now u = (ok, rl')" by (cases "allow_request rl now u")
    show ?thesis
    proof (cases "u = []")
      case True
      have "validate sqlparse rl now query (Some []) = validate sqlparse rl now query None"
        by (simp add: validate_def)
      then show ?thesis using pure Some True by (simp add: rate_limited_def limiter_after_def)
    next
      case ne: False
      show ?thesis
      proof (cases ok)
        case False
        then show ?thesis using Some ne a
          by (simp add: validate_def rate_limited_def limiter_after_def)
      next
        case True
        have "validate sqlparse rl now query (Some u) = validate sqlparse rl' now query None"
          using ne a True by (simp add: validate_def)
        then have "validate sqlparse rl now query (Some u) = (text_verdict sqlparse query, rl')"
          using pure by simp
        then show ?thesis using Some ne a True by (simp add: rate_limited_def limiter_after_def)
      qed
    qed
  qed
qed

lemma text_verdict_Valid_iff:
  "text_verdict sqlparse query = Valid \<longleftrightarrow>
     length query \<le> MAX_QUERY_LENGTH \<and> py_strip query \<noteq> [] \<and>
     sqlparse query = Inr (Some ''SELECT'') \<and> blocked_keyword query = None \<and>
     \<not> has_comment_marker query \<and> \<not> py_in '';'' (py_rstrip_char CHR '';'' query) \<and>
     count_tables query \<le> MAX_TABLES"
proof -
  have e: "query = [] \<Longrightarrow> py_strip query = []" by (simp add: py_strip_def)
  show ?thesis
    using e by (auto simp: text_verdict_def split: sum.split option.split)
qed

lemma text_verdict_blocked:
  assumes "length query \<le> MAX_QUERY_LENGTH" and "py_strip query \<noteq> []"
    and "sqlparse query = Inr (Some ''SELECT'')" and "blocked_keyword query = Some k"
  shows "text_verdict sqlparse query = Invalid (''Blocked keyword detected: '' @ k)"
proof -
  have e: "query \<noteq> []" using assms(2) by (auto simp: py_strip_def)
  show ?thesis using assms e by (simp add: text_verdict_def)
qed

lemma blocked_keyword_Some_iff:
  "blocked_keyword query = Some k \<longleftrightarrow>
     (\<exists>i<length BLOCKED_KEYWORDS. k = BLOCKED_KEYWORDS ! i \<and> re_search_word k (upper query) \<and>
        (\<forall>j<i. \<not> re_search_word (BLOCKED_KEYWORDS ! j) (upper query)))"
  unfolding blocked_keyword_def find_Some_iff by auto

lemma blocked_keyword_None_iff:
  "blocked_keyword query = None \<longleftrightarrow> (\<forall>kw\<in>set BLOCKED_KEYWORDS. \<not> re_search_word kw (upper query))"
  unfolding blocked_keyword_def find_None_iff by auto

text \<open>
  Claim C2, as the program has it.  A text in which a blocked keyword occurs as a whole
  word, in any letter case, is never admitted.  The reason names a keyword only when the
  checks placed before the keyword scan pass: for an identity that is not rate limited,
  a text of at most \<open>MAX_QUERY_LENGTH\<close> characters and a parse as one \<open>SELECT\<close>
  statement, the reason is \<open>Blocked keyword detected: K\<close> for the first keyword \<open>K\<close>
  of \<open>BLOCKED_KEYWORDS\<close> that occurs in the text as a whole word.
\<close>

theorem validate_blocked_keyword_rejected:
  assumes "kw \<in> set BLOCKED_KEYWORDS" and "re_search_word kw (upper query)"
  shows "(\<exists>reason. fst (validate sqlparse rl now query user_id) = Invalid reason) \<and>
         (\<not> rate_limited rl now user_id \<and> length query \<le> MAX_QUERY_LENGTH \<and>
          sqlparse query = Inr (Some ''SELECT'') \<longrightarrow>
            (\<exists>i<length BLOCKED_KEYWORDS.
               re_search_word (BLOCKED_KEYWORDS ! i) (upper query) \<and>
               (\<forall>j<i. \<not> re_search_word (BLOCKED_KEYWORDS ! j) (upper query)) \<and>
               fst (validate sqlparse rl now query user_id)
                 = Invalid (''Blocked keyword detected: '' @ BLOCKED_KEYWORDS ! i)))"
proof -
  from assms have some: "blocked_keyword query \<noteq> None"
    by (auto simp: blocked_keyword_None_iff)
  then have "text_verdict sqlparse query \<noteq> Valid"
    by (simp add: text_verdict_Valid_iff)
  then have "fst (validate sqlparse rl now query user_id) \<noteq> Valid"
    by (simp add: validate_eq)
  then have first: "\<exists>reason. fst (validate sqlparse rl now query user_id) = Invalid reason"
    by (cases "fst (validate sqlparse rl now query user_id)") auto
  have second: "\<exists>i<length BLOCKED_KEYWORDS.
               re_search_word (BLOCKED_KEYWORDS ! i) (upper query) \<and>
               (\<forall>j<i. \<not> re_search_word (BLOCKED_KEYWORDS ! j) (upper query)) \<and>
               fst (validate sqlparse rl now query user_id)
                 = Invalid (''Blocked keyword detected: '' @ BLOCKED_KEYWORDS ! i)"
    if pass: "\<not> rate_limited rl now user_id" "length query \<le> MAX_QUERY_LENGTH"
      "sqlparse query = Inr (Some ''SELECT'')"
  proof -
    from some obtain k where k: "blocked_keyword query = Some k" by auto
    have "text_verdict sqlparse query = Invalid (''Blocked keyword detected: '' @ k)"
      using pass(2) match_not_blank[OF assms] pass(3) k by (rule text_verdict_blocked)
    then have "fst (validate sqlparse rl now query user_id)
                 = Invalid (''Blocked keyword detected: '' @ k)"
      using pass(1) by (simp add: validate_eq)
    then show ?thesis using k unfolding blocked_keyword_Some_iff by blast
  qed
  from first second show ?thesis by blast
qed

theorem validate_blocked_keyword_rejected_witness:
  "''DROP'' \<in> set BLOCKED_KEYWORDS \<and>
   re_search_word ''DROP'' (upper ''SELECT name FROM users WHERE note = 'drop it' OR id = 1'') \<and>
   fst (validate select_parser (RateLimiter_init 10 60) 0
          ''SELECT name FROM users WHERE note = 'drop it' OR id = 1'' None)
     = Invalid ''Blocked keyword detected: DROP''"
proof -
  let ?q = "''SELECT name FROM users WHERE note = 'drop it' OR id = 1''"
  have h1: "''DROP'' \<in> set BLOCKED_KEYWORDS" by (simp add: BLOCKED_KEYWORDS_def)
  have h2: "re_search_word ''DROP'' (upper ?q)" by code_simp
  have p: "\<not> rate_limited (RateLimiter_init 10 60) 0 None \<and> length ?q \<le> MAX_QUERY_LENGTH \<and>
           select_parser ?q = Inr (Some ''SELECT'')"
    by (simp add: rate_limited_def MAX_QUERY_LENGTH_def select_parser_def)
  from validate_blocked_keyword_rejected[OF h1 h2, of select_parser "RateLimiter_init 10 60" 0 None] p
  obtain i where i: "\<forall>j<i. \<not> re_search_word (BLOCKED_KEYWORDS ! j) (upper ?q)"
     "fst (validate select_parser (RateLimiter_init 10 60) 0 ?q None)
        = Invalid (''Blocked keyword detected: '' @ BLOCKED_KEYWORDS ! i)"
    by blast
  have "BLOCKED_KEYWORDS ! 0 = ''DROP''" by (simp add: BLOCKED_KEYWORDS_def)
  with h2 i(1) have "i = 0" by (cases i) auto
  with i(2) \<open>BLOCKED_KEYWORDS ! 0 = ''DROP''\<close> h1 h2 show ?thesis by simp
qed

text \<open>
  As stated, C2 asks for a reason naming the keyword for every such text.  A statement
  of 2001 characters that holds the word \<open>drop\<close> is refused by the length check, whose
  reason does not mention \<open>DROP\<close>.
\<close>

theorem validate_blocked_keyword_counterexample:
  "''DROP'' \<in> set BLOCKED_KEYWORDS \<and>
   re_search_word ''DROP'' (upper (''SELECT id FROM t WHERE note = 'drop' '' @ replicate 1964 CHR '' '')) \<and>
   fst (validate select_parser (RateLimiter_init 10 60) 0
          (''SELECT id FROM t WHERE note = 'drop' '' @ replicate 1964 CHR '' '') None)
     = Invalid ''Query too long. Maximum length is 2000 characters.'' \<and>
   \<not> py_in ''DROP'' ''Query too long. Maximum length is 2000 characters.''"
proof -
  let ?q = "''SELECT id FROM t WHERE note = 'drop' '' @ replicate 1964 CHR '' ''"
  have h1: "''DROP'' \<in> set BLOCKED_KEYWORDS" by (simp add: BLOCKED_KEYWORDS_def)
  have h2: "re_search_word ''DROP'' (upper ?q)"
    by (rule re_search_wordI[where i=31])
       (simp_all add: match_at_def boundary_def word_at_def text_defs nth_append)
  have v: "fst (validate select_parser (RateLimiter_init 10 60) 0 ?q None)
     = Invalid ''Query too long. Maximum length is 2000 characters.''"
    by (simp add: validate_eq rate_limited_def text_verdict_def MAX_QUERY_LENGTH_def
          str_nat.simps digits_def)
  have n: "\<not> py_in ''DROP'' ''Query too long. Maximum length is 2000 characters.''"
    by simp
  from h1 h2 v n show ?thesis by blast
qed

text \<open>
  Claim C3, as the program has it.  A text that parses as one \<open>SELECT\<close> statement, is
  not blank, has at most \<open>MAX_QUERY_LENGTH\<close> characters and at most \<open>MAX_TABLES\<close>
  table references, no comment marker, no statement terminator before its end and no
  blocked keyword as a whole word is admitted, whenever the limiter does not refuse the
  identity (in particular when no identity is given).
\<close>

theorem validate_accepts_clean_select:
  assumes "sqlparse query = Inr (Some ''SELECT'')" and "py_strip query \<noteq> []"
    and "length query \<le> MAX_QUERY_LENGTH" and "count_tables query \<le> MAX_TABLES"
    and "\<not> has_comment_marker query" and "\<not> py_in '';'' (py_rstrip_char CHR '';'' query)"
    and "\<forall>kw\<in>set BLOCKED_KEYWORDS. \<not> re_search_word kw (upper query)"
    and "\<not> rate_limited rl now user_id"
  shows "fst (validate sqlparse rl now query user_id) = Valid"
  using assms by (simp add: validate_eq text_verdict_Valid_iff blocked_keyword_None_iff)

theorem validate_accepts_clean_select_witness:
  "select_parser ''SELECT * FROM users WHERE id = 1'' = Inr (Some ''SELECT'') \<and>
   fst (validate select_parser (RateLimiter_init 10 60) 0 ''SELECT * FROM users WHERE id = 1'' None)
     = Valid"
proof -
  let ?q = "''SELECT * FROM users WHERE id = 1''"
  have a1: "select_parser ?q = Inr (Some ''SELECT'')" by (simp add: select_parser_def)
  have a2: "py_strip ?q \<noteq> []" by code_simp
  have a3: "length ?q \<le> MAX_QUERY_LENGTH" by (simp add: MAX_QUERY_LENGTH_def)
  have a4: "count_tables ?q \<le> MAX_TABLES" by code_simp
  have a5: "\<not> has_comment_marker ?q" by (simp add: has_comment_marker_def)
  have a6: "\<not> py_in '';'' (py_rstrip_char CHR '';'' ?q)" by code_simp
  have a7: "\<forall>kw\<in>set BLOCKED_KEYWORDS. \<not> re_search_word kw (upper ?q)" by code_simp
  have a8: "\<not> rate_limited (RateLimiter_init 10 60) 0 None" by (simp add: rate_limited_def)
  from validate_accepts_clean_select[where sqlparse = select_parser and query = ?q
         and rl = "RateLimiter_init 10 60" and now = 0 and user_id = None,
         OF a1 a2 a3 a4 a5 a6 a7 a8] a1
  show ?thesis by simp
qed

text \<open>
  As stated, C3 does not ask for the absence of blocked keywords.  A \<open>SELECT\<close> statement
  that compares a column with the string \<open>'delete'\<close> meets every condition of C3 and is
  refused by the keyword scan.
\<close>

theorem validate_accepts_counterexample:
  "select_parser ''SELECT * FROM logs WHERE action = 'delete' ORDER BY id'' = Inr (Some ''SELECT'') \<and>
   length ''SELECT * FROM logs WHERE action = 'delete' ORDER BY id'' \<le> MAX_QUERY_LENGTH \<and>
   count_tables ''SELECT * FROM logs WHERE action = 'delete' ORDER BY id'' \<le> MAX_TABLES \<and>
   \<not> has_comment_marker ''SELECT * FROM logs WHERE action = 'delete' ORDER BY id'' \<and>
   \<not> py_in '';'' (py_rstrip_char CHR '';'' ''SELECT * FROM logs WHERE action = 'delete' ORDER BY id'') \<and>
   fst (validate select_parser (RateLimiter_init 10 60) 0
          ''SELECT * FROM logs WHERE action = 'delete' ORDER BY id'' None)
     = Invalid ''Blocked keyword detected: DELETE''"
proof -
  let ?q = "''SELECT * FROM logs WHERE action = 'delete' ORDER BY id''"
  have a1: "select_parser ?q = Inr (Some ''SELECT'')" by (simp add: select_parser_def)
  have a3: "length ?q \<le> MAX_QUERY_LENGTH" by (simp add: MAX_QUERY_LENGTH_def)
  have a4: "count_tables ?q \<le> MAX_TABLES" by code_simp
  have a5: "\<not> has_comment_marker ?q" by (simp add: has_comment_marker_def)
  have a6: "\<not> py_in '';'' (py_rstrip_char CHR '';'' ?q)" by code_simp
  have v: "fst (validate select_parser (RateLimiter_init 10 60) 0 ?q None)
     = Invalid ''Blocked keyword detected: DELETE''" by code_simp
  from a1 a3 a4 a5 a6 v show ?thesis by blast
qed

section \<open>Properties of the rate limiter\<close>

lemma length_filter_imp:
  "(\<And>x. x \<in> set xs \<Longrightarrow> P x \<Longrightarrow> Q x) \<Longrightarrow> length (filter P xs) \<le> length (filter Q xs)"
  by (induction xs) auto

lemma run_calls_Nil: "run_calls rl [] = (rl, [])"
  by (simp add: run_calls_def)

lemma run_calls_snoc: "run_calls rl (cs @ [c]) = process_call (run_calls rl cs) c"
  by (simp add: run_calls_def)

lemma process_call_eq:
  "process_call (rl, lg) (v, now)
     = (snd (allow_request rl now v), lg @ [(v, now, fst (allow_request rl now v))])"
  by (simp add: process_call_def split: prod.split)

lemma allow_request_fst:
  "fst (allow_request rl now u) \<longleftrightarrow>
     int (length (filter (\<lambda>r. now - r < real_of_int (time_window rl)) (requests rl u)))
       < max_requests rl"
  by (auto simp: allow_request_def Let_def)

lemma allow_request_same:
  "requests (snd (allow_request rl now u)) u
     = filter (\<lambda>r. now - r < real_of_int (time_window rl)) (requests rl u)
       @ (if fst (allow_request rl now u) then [now] else [])"
  by (simp add: allow_request_def Let_def)

lemma allow_request_other:
  "v \<noteq> u \<Longrightarrow> requests (snd (allow_request rl now u)) v = requests rl v"
  by (simp add: allow_request_def Let_def)

lemma allow_request_params:
  "max_requests (snd (allow_request rl now u)) = max_requests rl \<and>
   time_window (snd (allow_request rl now u)) = time_window rl"
  by (simp add: allow_request_def Let_def)

lemma run_calls_params:
  "max_requests (fst (run_calls rl cs)) = max_requests rl \<and>
   time_window (fst (run_calls rl cs)) = time_window rl"
proof (induction cs rule: rev_induct)
  case Nil
  show ?case by (simp add: run_calls_Nil)
next
  case (snoc c cs)
  obtain rl1 lg1 where s: "run_calls rl cs = (rl1, lg1)" by (cases "run_calls rl cs")
  obtain v now where c: "c = (v, now)" by (cases c)
  show ?case using snoc s c
    by (simp add: run_calls_snoc process_call_eq allow_request_params)
qed

lemma admitted_in_le_after: "admitted_in lg u lo hi \<le> admitted_after lg u lo"
  unfolding admitted_in_def admitted_after_def by (rule length_filter_imp) auto

lemma admitted_after_snoc:
  "admitted_after (lg @ [(v, now, ok)]) u lo
     = admitted_after lg u lo + (if v = u \<and> ok \<and> lo < now then 1 else 0)"
  by (simp add: admitted_after_def)

lemma admitted_in_snoc:
  "admitted_in (lg @ [(v, now, ok)]) u lo hi
     = admitted_in lg u lo hi + (if v = u \<and> ok \<and> lo < now \<and> now \<le> hi then 1 else 0)"
  by (simp add: admitted_in_def)

text \<open>
  After a run with non-decreasing clock readings, the window of every identity holds,
  above every threshold not older than the last reading minus the window length, as
  many time stamps as the identity has admitted calls above it.
\<close>

lemma window_matches_log:
  assumes "sorted (map snd cs)"
  shows "\<forall>u lo. (\<forall>c\<in>set cs. snd c - real_of_int w \<le> lo) \<longrightarrow>
           length (filter (\<lambda>r. lo < r) (requests (fst (run_calls (RateLimiter_init n w) cs)) u))
             = admitted_after (snd (run_calls (RateLimiter_init n w) cs)) u lo"
  using assms
proof (induction cs rule: rev_induct)
  case Nil
  show ?case by (simp add: run_calls_Nil RateLimiter_init_def admitted_after_def)
next
  case (snoc c cs)
  obtain rl1 lg1 where s: "run_calls (RateLimiter_init n w) cs = (rl1, lg1)"
    by (cases "run_calls (RateLimiter_init n w) cs")
  obtain v now where c: "c = (v, now)" by (cases c)
  from snoc.prems have sorted_cs: "sorted (map snd cs)" and le_now: "\<forall>x\<in>set cs. snd x \<le> now"
    by (auto simp: c sorted_append)
  have w1: "time_window rl1 = w"
    using run_calls_params[of "RateLimiter_init n w" cs] s by (simp add: RateLimiter_init_def)
  have ih: "\<And>u lo. (\<forall>c\<in>set cs. snd c - real_of_int w \<le> lo) \<Longrightarrow>
              length (filter (\<lambda>r. lo < r) (requests rl1 u)) = admitted_after lg1 u lo"
    using snoc.IH[OF sorted_cs] s by simp
  show ?case
  proof (intro allI impI)
    fix u lo
    assume "\<forall>x\<in>set (cs @ [c]). snd x - real_of_int w \<le> lo"
    then have lo_cs: "\<forall>x\<in>set cs. snd x - real_of_int w \<le> lo" and lo_now: "now - real_of_int w \<le> lo"
      by (auto simp: c)
    let ?ok = "fst (allow_request rl1 now v)"
    let ?rl2 = "snd (allow_request rl1 now v)"
    have st: "run_calls (RateLimiter_init n w) (cs @ [c]) = (?rl2, lg1 @ [(v, now, ?ok)])"
      by (simp add: run_calls_snoc s c process_call_eq)
    show "length (filter (\<lambda>r. lo < r) (requests (fst (run_calls (RateLimiter_init n w) (cs @ [c]))) u))
            = admitted_after (snd (run_calls (RateLimiter_init n w) (cs @ [c]))) u lo"
    proof (cases "u = v")
      case False
      then show ?thesis
        using ih[OF lo_cs, of u] by (simp add: st allow_request_other admitted_after_snoc)
    next
      case True
      have "filter (\<lambda>r. lo < r) (filter (\<lambda>r. now - r < real_of_int w) (requests rl1 v))
              = filter (\<lambda>r. lo < r) (requests rl1 v)"
        unfolding filter_filter using lo_now by (intro filter_cong) auto
      then show ?thesis
        using ih[OF lo_cs, of v] True
        by (simp add: st allow_request_same w1 admitted_after_snoc)
    qed
  qed
qed

lemma window_bound:
  assumes "sorted (map snd cs)"
  shows "admitted_in (snd (run_calls (RateLimiter_init n w) cs)) u (t - real_of_int w) t \<le> nat n"
  using assms
proof (induction cs arbitrary: t rule: rev_induct)
  case Nil
  show ?case by (simp add: run_calls_Nil admitted_in_def)
next
  case (snoc c cs)
  obtain rl1 lg1 where s: "run_calls (RateLimiter_init n w) cs = (rl1, lg1)"
    by (cases "run_calls (RateLimiter_init n w) cs")
  obtain v now where c: "c = (v, now)" by (cases c)
  from snoc.prems have sorted_cs: "sorted (map snd cs)" and le_now: "\<forall>x\<in>set cs. snd x \<le> now"
    by (auto simp: c sorted_append)
  have p1: "time_window rl1 = w" "max_requests rl1 = n"
    using run_calls_params[of "RateLimiter_init n w" cs] s by (simp_all add: RateLimiter_init_def)
  have ih: "admitted_in lg1 u (t - real_of_int w) t \<le> nat n"
    using snoc.IH[OF sorted_cs, of t] s by simp
  let ?ok = "fst (allow_request rl1 now v)"
  let ?rl2 = "snd (allow_request rl1 now v)"
  let ?kept = "filter (\<lambda>r. now - r < real_of_int w) (requests rl1 v)"
  have st: "run_calls (RateLimiter_init n w) (cs @ [c]) = (?rl2, lg1 @ [(v, now, ?ok)])"
    by (simp add: run_calls_snoc s c process_call_eq)
  show ?case
  proof (cases "v = u \<and> ?ok \<and> t - real_of_int w < now \<and> now \<le> t")
    case False
    then show ?thesis using ih by (auto simp add: st admitted_in_snoc)
  next
    case True
    then have vu: "v = u" by simp
    from True have ok: "int (length ?kept) < n"
      by (auto simp add: allow_request_fst p1)
    have lo: "\<forall>x\<in>set cs. snd x - real_of_int w \<le> t - real_of_int w"
      using le_now True by fastforce
    have "admitted_in lg1 u (t - real_of_int w) t \<le> admitted_after lg1 u (t - real_of_int w)"
      by (rule admitted_in_le_after)
    also have "\<dots> = length (filter (\<lambda>r. t - real_of_int w < r) (requests rl1 u))"
      using window_matches_log[OF sorted_cs, of w n] lo s by simp
    also have "\<dots> \<le> length ?kept"
      unfolding vu using True by (intro length_filter_imp) auto
    finally have "admitted_in lg1 u (t - real_of_int w) t < nat n"
      using ok by linarith
    then show ?thesis using True by (simp add: st admitted_in_snoc)
  qed
qed

lemma calls_of_snoc:
  "calls_of u (xs @ [x]) = (if fst x = u then calls_of u xs @ [x] else calls_of u xs)"
  by (simp add: calls_of_def)

lemma run_calls_independent:
  "calls_of u (snd (run_calls rl cs)) = snd (run_calls rl (calls_of u cs)) \<and>
   requests (fst (run_calls rl cs)) u = requests (fst (run_calls rl (calls_of u cs))) u"
proof (induction cs rule: rev_induct)
  case Nil
  show ?case by (simp add: run_calls_Nil calls_of_def)
next
  case (snoc c cs)
  obtain rl1 lg1 where s: "run_calls rl cs = (rl1, lg1)" by (cases "run_calls rl cs")
  obtain rl2 lg2 where s2: "run_calls rl (calls_of u cs) = (rl2, lg2)"
    by (cases "run_calls rl (calls_of u cs)")
  obtain v now where c: "c = (v, now)" by (cases c)
  from snoc s s2 have ih: "calls_of u lg1 = lg2" "requests rl1 u = requests rl2 u" by simp_all
  have p: "time_window rl1 = time_window rl2" "max_requests rl1 = max_requests rl2"
    using run_calls_params[of rl cs] run_calls_params[of rl "calls_of u cs"] s s2 by simp_all
  show ?case
  proof (cases "v = u")
    case False
    then show ?thesis using ih
      by (simp add: run_calls_snoc s s2 c process_call_eq calls_of_snoc allow_request_other)
  next
    case True
    have a: "fst (allow_request rl1 now u) = fst (allow_request rl2 now u)"
      by (simp add: allow_request_fst ih p)
    have b: "requests (snd (allow_request rl1 now u)) u = requests (snd (allow_request rl2 now u)) u"
      by (simp add: allow_request_same ih p a)
    show ?thesis using ih True a b
      by (simp add: run_calls_snoc s s2 c process_call_eq calls_of_snoc)
  qed
qed

text \<open>
  Claim C4.  Run any sequence of calls of \<open>allow_request\<close> with non-decreasing readings
  of the clock against a fresh limiter with bound \<open>n\<close> and window \<open>w\<close>.  For every
  identity \<open>u\<close> and every instant \<open>t\<close>, at most \<open>n\<close> calls of \<open>u\<close> with a time in
  \<open>(t - w, t]\<close> are admitted; the verdicts on the calls of \<open>u\<close> are the ones the calls of
  \<open>u\<close> alone would get, whatever the other identities do.  In each call the time stamps
  of \<open>u\<close> at or before \<open>now - w\<close> are evicted first, the call is admitted when fewer than
  \<open>n\<close> remain, an admitted call appends \<open>now\<close>, a denied call appends nothing, and the
  windows of the other identities are left as they are.
\<close>

theorem rate_limiter_sliding_window:
  assumes "sorted (map snd calls)"
  shows "admitted_in (snd (run_calls (RateLimiter_init n w) calls)) u (t - real_of_int w) t \<le> nat n \<and>
         calls_of u (snd (run_calls (RateLimiter_init n w) calls))
           = snd (run_calls (RateLimiter_init n w) (calls_of u calls)) \<and>
         (\<forall>rl now.
            fst (allow_request rl now u)
              = (int (length (filter (\<lambda>r. now - real_of_int (time_window rl) < r) (requests rl u)))
                   < max_requests rl) \<and>
            requests (snd (allow_request rl now u)) u
              = filter (\<lambda>r. now - real_of_int (time_window rl) < r) (requests rl u)
                @ (if fst (allow_request rl now u) then [now] else []) \<and>
            (\<forall>v. v \<noteq> u \<longrightarrow> requests (snd (allow_request rl now u)) v = requests rl v))"
proof -
  have f: "\<And>rl now. filter (\<lambda>r. now - r < real_of_int (time_window rl)) (requests rl u)
             = filter (\<lambda>r. now - real_of_int (time_window rl) < r) (requests rl u)"
    by (intro filter_cong) auto
  show ?thesis
    using window_bound[OF assms, of n w u t] run_calls_independent[of u "RateLimiter_init n w" calls]
    by (simp add: allow_request_fst allow_request_same allow_request_other f)
qed

theorem rate_limiter_sliding_window_witness:
  "sorted (map snd [(''a'', 0), (''a'', 1), (''b'', 2), (''a'', 3), (''a'', 61 :: real)]) \<and>
   snd (run_calls (RateLimiter_init 2 60)
          [(''a'', 0), (''a'', 1), (''b'', 2), (''a'', 3), (''a'', 61)])
     = [(''a'', 0, True), (''a'', 1, True), (''b'', 2, True), (''a'', 3, False), (''a'', 61, True)] \<and>
   admitted_in (snd (run_calls (RateLimiter_init 2 60)
                       [(''a'', 0), (''a'', 1), (''b'', 2), (''a'', 3), (''a'', 61)]))
     ''a'' (3 - real_of_int 60) 3 \<le> nat 2"
proof -
  let ?cs = "[(''a'', 0), (''a'', 1), (''b'', 2), (''a'', 3), (''a'', 61 :: real)]"
  have s: "sorted (map snd ?cs)" by simp
  have l: "snd (run_calls (RateLimiter_init 2 60) ?cs)
     = [(''a'', 0, True), (''a'', 1, True), (''b'', 2, True), (''a'', 3, False), (''a'', 61, True)]"
    by (simp add: run_calls_def process_call_def allow_request_def RateLimiter_init_def Let_def)
  from rate_limiter_sliding_window[OF s, of 2 60 "''a''" 3] s l show ?thesis by simp
qed

section \<open>Properties of the executor\<close>

lemma execute_query_rejected:
  assumes "fst (validate sqlparse rl now query user_id) = Invalid reason"
  shows "execute_query sqlparse driver rl now query user_id max_rows
           = \<lparr>result = Failure reason, limiter = limiter_after rl now user_id, submitted = []\<rparr>"
proof -
  from assms have "validate sqlparse rl now query user_id = (Invalid reason, limiter_after rl now user_id)"
    by (simp add: validate_eq)
  then show ?thesis by (simp add: execute_query_def)
qed

lemma execute_query_admitted:
  assumes "fst (validate sqlparse rl now query user_id) = Valid"
  shows "execute_query sqlparse driver rl now query user_id max_rows
           = (case driver (add_limit query max_rows) of
                Inr (columns, rows) \<Rightarrow>
                  \<lparr>result = Success (map (\<lambda>row. py_dict (zip columns row)) rows) (length rows),
                    limiter = limiter_after rl now user_id,
                    submitted = [add_limit query max_rows]\<rparr>
              | Inl e \<Rightarrow>
                  \<lparr>result = Failure ((case e of SQLAlchemyError _ \<Rightarrow> ''Database error: ''
                                        | OtherException _ \<Rightarrow> ''Unexpected error: '') @ exn_str e),
                    limiter = limiter_after rl now user_id,
                    submitted = [add_limit query max_rows]\<rparr>)"
proof -
  from assms have "validate sqlparse rl now query user_id = (Valid, limiter_after rl now user_id)"
    by (simp add: validate_eq)
  then show ?thesis
    by (simp add: execute_query_def Let_def split: sum.split exn.split prod.split)
qed

lemma execute_query_limiter:
  "limiter (execute_query sqlparse driver rl now query user_id max_rows) = limiter_after rl now user_id"
proof (cases "fst (validate sqlparse rl now query user_id)")
  case Valid
  then show ?thesis
    by (simp add: execute_query_admitted split: sum.split prod.split)
next
  case (Invalid r)
  then show ?thesis by (simp add: execute_query_rejected)
qed

text \<open>
  Claim C5.  When the validator refuses the text, \<open>execute_query\<close> returns a failure
  with the reason of the validator unchanged and hands nothing to the driver.  Every
  call returns a result: when the driver raises, whatever the class of the exception, the
  result is a failure; when it returns rows, the result is a success with these rows.
\<close>

theorem execute_query_never_raises:
  "(\<forall>reason. fst (validate sqlparse rl now query user_id) = Invalid reason \<longrightarrow>
      result (execute_query sqlparse driver rl now query user_id max_rows) = Failure reason \<and>
      submitted (execute_query sqlparse driver rl now query user_id max_rows) = []) \<and>
   (\<forall>e. fst (validate sqlparse rl now query user_id) = Valid \<and>
        driver (add_limit query max_rows) = Inl e \<longrightarrow>
      (\<exists>msg. result (execute_query sqlparse driver rl now query user_id max_rows) = Failure msg)) \<and>
   (\<forall>columns rows. fst (validate sqlparse rl now query user_id) = Valid \<and>
        driver (add_limit query max_rows) = Inr (columns, rows) \<longrightarrow>
      (\<exists>data. result (execute_query sqlparse driver rl now query user_id max_rows)
                 = Success data (length rows))) \<and>
   ((\<exists>msg. result (execute_query sqlparse driver rl now query user_id max_rows) = Failure msg) \<or>
    (\<exists>data row_count. result (execute_query sqlparse driver rl now query user_id max_rows)
                 = Success data row_count))"
proof -
  have total: "(\<exists>msg. result (execute_query sqlparse driver rl now query user_id max_rows) = Failure msg) \<or>
    (\<exists>data row_count. result (execute_query sqlparse driver rl now query user_id max_rows)
                 = Success data row_count)"
    by (cases "result (execute_query sqlparse driver rl now query user_id max_rows)") auto
  then show ?thesis
    by (auto simp: execute_query_rejected execute_query_admitted)
qed

theorem execute_query_never_raises_witness:
  "fst (validate select_parser (RateLimiter_init 10 60) 0
          ''SELECT * FROM users -- WHERE admin = 1'' None)
     = Invalid ''SQL comments are not allowed.'' \<and>
   result (execute_query select_parser (table_driver [''id''] [[1], [2 :: int]])
             (RateLimiter_init 10 60) 0 ''SELECT * FROM users -- WHERE admin = 1'' None 100)
     = Failure ''SQL comments are not allowed.'' \<and>
   submitted (execute_query select_parser (table_driver [''id''] [[1], [2 :: int]])
             (RateLimiter_init 10 60) 0 ''SELECT * FROM users -- WHERE admin = 1'' None 100) = []"
proof -
  let ?q = "''SELECT * FROM users -- WHERE admin = 1''"
  have v: "fst (validate select_parser (RateLimiter_init 10 60) 0 ?q None)
             = Invalid ''SQL comments are not allowed.''"
    by code_simp
  note t = execute_query_never_raises[of select_parser "RateLimiter_init 10 60" 0 ?q None
             "table_driver [''id''] [[1], [2 :: int]]" 100]
  note r = t[THEN conjunct1, rule_format, OF v]
  show ?thesis
    apply (intro conjI)
      apply (rule v)
     apply (rule r[THEN conjunct1])
    apply (rule r[THEN conjunct2])
    done
qed

text \<open>
  Claim C7, as the program has it.  When an admitted query fails in the database, the
  driver raising \<open>e\<close>, \<open>execute_query\<close> returns a failure.  Its message is
  \<open>Database error: \<close> (for an \<open>SQLAlchemyError\<close>) or \<open>Unexpected error: \<close> (for
  any other exception) followed by the text \<open>str(e)\<close> of the exception, so the text of
  the driver is part of the message.
\<close>

theorem execute_query_database_error:
  assumes "fst (validate sqlparse rl now query user_id) = Valid"
    and "driver (add_limit query max_rows) = Inl e"
  shows "\<exists>msg. result (execute_query sqlparse driver rl now query user_id max_rows) = Failure msg \<and>
           msg = (case e of SQLAlchemyError _ \<Rightarrow> ''Database error: ''
                  | OtherException _ \<Rightarrow> ''Unexpected error: '') @ exn_str e \<and>
           py_in (exn_str e) msg"
  using assms by (simp add: execute_query_admitted py_in_append)

theorem execute_query_database_error_witness:
  "fst (validate select_parser (RateLimiter_init 10 60) 0 ''SELECT 1 / 0'' None) = Valid \<and>
   result (execute_query select_parser
             (failing_driver (SQLAlchemyError ''division by zero'') :: int driver)
             (RateLimiter_init 10 60) 0 ''SELECT 1 / 0'' None 100)
     = Failure ''Database error: division by zero''"
proof -
  have v: "fst (validate select_parser (RateLimiter_init 10 60) 0 ''SELECT 1 / 0'' None) = Valid"
    by code_simp
  have d: "(failing_driver (SQLAlchemyError ''division by zero'') :: int driver)
             (add_limit ''SELECT 1 / 0'' 100) = Inl (SQLAlchemyError ''division by zero'')"
    by (simp add: failing_driver_def)
  from execute_query_database_error[where sqlparse = select_parser and rl = "RateLimiter_init 10 60"
         and now = 0 and query = "''SELECT 1 / 0''" and user_id = None and max_rows = 100
         and driver = "failing_driver (SQLAlchemyError ''division by zero'') :: int driver"
         and e = "SQLAlchemyError ''division by zero''", OF v d] v
  show ?thesis by simp
qed

text \<open>
  As stated, C7 has a message free of the text of the driver.  For an admitted query on
  which the driver raises \<open>division by zero\<close>, the message returned contains that text.
\<close>

theorem execute_query_leaks_driver_text_counterexample:
  "fst (validate select_parser (RateLimiter_init 10 60) 0 ''SELECT 1 / 0'' None) = Valid \<and>
   result (execute_query select_parser
             (failing_driver (SQLAlchemyError ''division by zero'') :: int driver)
             (RateLimiter_init 10 60) 0 ''SELECT 1 / 0'' None 100)
     = Failure ''Database error: division by zero'' \<and>
   py_in ''division by zero'' ''Database error: division by zero''"
proof -
  have v: "fst (validate select_parser (RateLimiter_init 10 60) 0 ''SELECT 1 / 0'' None) = Valid"
    by code_simp
  have r: "result (execute_query select_parser
             (failing_driver (SQLAlchemyError ''division by zero'') :: int driver)
             (RateLimiter_init 10 60) 0 ''SELECT 1 / 0'' None 100)
     = Failure ''Database error: division by zero''"
    using v by (simp add: execute_query_admitted failing_driver_def)
  have p: "py_in ''division by zero'' ''Database error: division by zero''" by simp
  from v r p show ?thesis by blast
qed

text \<open>
  Claim C1.  \<open>execute_query\<close> is to return no more than \<open>max_rows\<close> rows, also for a
  text that has a looser limiting clause of its own; the docstring of the function has
  \<open>max_rows\<close> as the maximum number of rows to return.  The program does not keep
  to it.  The clause is added only when the upper-case text does not contain \<open>LIMIT\<close>
  anywhere.  With the cap 2 and a table of five rows, a text that ends in \<open>LIMIT 3\<close> is
  handed to the driver unchanged and three rows are returned; a text without any limiting
  clause that names a column \<open>limit_id\<close> is handed over unchanged too, and all five rows
  are returned.
\<close>

theorem execute_query_exceeds_row_cap:
  "fst (validate select_parser (RateLimiter_init 10 60) 0 ''SELECT id FROM t LIMIT 3'' None) = Valid \<and>
   submitted (execute_query select_parser (table_driver [''id''] [[1], [2], [3], [4], [5::int]])
                (RateLimiter_init 10 60) 0 ''SELECT id FROM t LIMIT 3'' None 2)
     = [''SELECT id FROM t LIMIT 3''] \<and>
   result (execute_query select_parser (table_driver [''id''] [[1], [2], [3], [4], [5::int]])
                (RateLimiter_init 10 60) 0 ''SELECT id FROM t LIMIT 3'' None 2)
     = Success [[(''id'', 1)], [(''id'', 2)], [(''id'', 3)]] 3 \<and>
   fst (validate select_parser (RateLimiter_init 10 60) 0 ''SELECT id AS limit_id FROM t'' None)
     = Valid \<and>
   submitted (execute_query select_parser
                (table_driver [''limit_id''] [[1], [2], [3], [4], [5::int]])
                (RateLimiter_init 10 60) 0 ''SELECT id AS limit_id FROM t'' None 2)
     = [''SELECT id AS limit_id FROM t''] \<and>
   result (execute_query select_parser
                (table_driver [''limit_id''] [[1], [2], [3], [4], [5::int]])
                (RateLimiter_init 10 60) 0 ''SELECT id AS limit_id FROM t'' None 2)
     = Success [[(''limit_id'', 1)], [(''limit_id'', 2)], [(''limit_id'', 3)],
                [(''limit_id'', 4)], [(''limit_id'', 5)]] 5"
proof -
  let ?q = "''SELECT id FROM t LIMIT 3''"
  let ?d = "table_driver [''id''] [[1], [2], [3], [4], [5::int]]"
  let ?q2 = "''SELECT id AS limit_id FROM t''"
  let ?d2 = "table_driver [''limit_id''] [[1], [2], [3], [4], [5::int]]"
  have v: "fst (validate select_parser (RateLimiter_init 10 60) 0 ?q None) = Valid"
    by code_simp
  have t: "add_limit ?q 2 = ?q" by code_simp
  have d: "?d ?q = Inr ([''id''], [[1], [2], [3]])" by code_simp
  have v2: "fst (validate select_parser (RateLimiter_init 10 60) 0 ?q2 None) = Valid"
    by code_simp
  have t2: "add_limit ?q2 2 = ?q2" by code_simp
  have d2: "?d2 ?q2 = Inr ([''limit_id''], [[1], [2], [3], [4], [5]])" by code_simp
  show ?thesis using v t d v2 t2 d2 by (simp add: execute_query_admitted py_dict_def)
qed

lemma foldl_process_call:
  "foldl process_call (rl, lg) cs = (fst (run_calls rl cs), lg @ snd (run_calls rl cs))"
proof (induction cs rule: rev_induct)
  case Nil
  show ?case by (simp add: run_calls_Nil)
next
  case (snoc c cs)
  obtain v now where c: "c = (v, now)" by (cases c)
  obtain rl1 lg1 where s: "run_calls rl cs = (rl1, lg1)" by (cases "run_calls rl cs")
  show ?case using snoc s c by (simp add: run_calls_snoc process_call_eq)
qed

lemma run_calls_Cons:
  "run_calls rl ((u, now) # cs)
     = (fst (run_calls (snd (allow_request rl now u)) cs),
        (u, now, fst (allow_request rl now u)) # snd (run_calls (snd (allow_request rl now u)) cs))"
proof -
  have "run_calls rl ((u, now) # cs) = foldl process_call (process_call (rl, []) (u, now)) cs"
    by (simp add: run_calls_def)
  then show ?thesis by (simp add: process_call_eq foldl_process_call)
qed

lemma run_query_limiter:
  "fst (snd (run_query sqlparse driver str_v rl now query))
     = snd (allow_request rl now ''default_user'')"
  by (simp add: run_query_def Let_def execute_query_limiter limiter_after_def)

lemma run_query_refused:
  assumes "\<not> fst (allow_request rl now ''default_user'')"
  shows "fst (run_query sqlparse driver str_v rl now query) = RATE_LIMIT_REFUSAL"
proof -
  from assms have "rate_limited rl now (Some ''default_user'')" by (simp add: rate_limited_def)
  then have "fst (validate sqlparse rl now query (Some ''default_user''))
               = Invalid ''Rate limit exceeded. Please wait before making more queries.''"
    by (simp add: validate_eq)
  then show ?thesis
    by (simp add: run_query_def Let_def execute_query_rejected RATE_LIMIT_REFUSAL_def)
qed

lemma run_queries_limiter:
  "snd (run_queries sqlparse driver str_v rl calls)
     = fst (run_calls rl (map (\<lambda>c. (''default_user'', snd c)) calls))"
proof (induction calls arbitrary: rl)
  case Nil
  show ?case by (simp add: run_calls_Nil)
next
  case (Cons c calls)
  obtain query now where c: "c = (query, now)" by (cases c)
  show ?case using Cons[of "snd (allow_request rl now ''default_user'')"]
    by (simp add: c Let_def run_calls_Cons run_query_limiter)
qed

lemma served_le_admitted:
  "served_in (fst (run_queries sqlparse driver str_v rl calls)) calls lo hi
     \<le> admitted_in (snd (run_calls rl (map (\<lambda>c. (''default_user'', snd c)) calls)))
          ''default_user'' lo hi"
proof (induction calls arbitrary: rl)
  case Nil
  show ?case by (simp add: served_in_def admitted_in_def run_calls_Nil)
next
  case (Cons c calls)
  obtain query now where c: "c = (query, now)" by (cases c)
  let ?rl = "snd (allow_request rl now ''default_user'')"
  have ih: "served_in (fst (run_queries sqlparse driver str_v ?rl calls)) calls lo hi
     \<le> admitted_in (snd (run_calls ?rl (map (\<lambda>c. (''default_user'', snd c)) calls)))
          ''default_user'' lo hi"
    by (rule Cons)
  have r: "fst (run_query sqlparse driver str_v rl now query) \<noteq> RATE_LIMIT_REFUSAL
             \<Longrightarrow> fst (allow_request rl now ''default_user'')"
    using run_query_refused[of rl now sqlparse driver str_v query] by blast
  show ?case using ih r
    by (auto simp add: c Let_def run_calls_Cons run_query_limiter served_in_def admitted_in_def)
qed

text \<open>
  Claim C10, as the program has it.  \<open>run_query\<close> takes the text of the query only:
  whoever invokes the tool, the executor is called with the identity \<open>default_user\<close>.
  Each invocation is a request of \<open>default_user\<close> to the limiter of the tool, the windows
  of all other identities stay as they are, and an invocation that the limiter refuses
  returns the rate-limit failure.  The limiter is the one built with the tool: the
  invocations made through one tool, whoever makes them, are the calls of
  \<open>default_user\<close> to that limiter in their order, and of those made with non-decreasing
  readings of the clock at most 10 in any window of 60 seconds are let through.
\<close>

theorem run_query_fixed_identity:
  "fst (snd (run_query sqlparse driver str_v rl now query))
     = snd (allow_request rl now ''default_user'') \<and>
   (\<forall>u. u \<noteq> ''default_user'' \<longrightarrow>
      requests (fst (snd (run_query sqlparse driver str_v rl now query))) u = requests rl u) \<and>
   (\<not> fst (allow_request rl now ''default_user'') \<longrightarrow>
      fst (run_query sqlparse driver str_v rl now query) = RATE_LIMIT_REFUSAL) \<and>
   snd (run_queries sqlparse driver str_v rl calls)
     = fst (run_calls rl (map (\<lambda>c. (''default_user'', snd c)) calls)) \<and>
   (sorted (map snd calls) \<longrightarrow>
      served_in (fst (run_queries sqlparse driver str_v create_sql_query_tool calls)) calls
        (t - 60) t \<le> 10)"
proof -
  have bound: "served_in (fst (run_queries sqlparse driver str_v create_sql_query_tool calls)) calls
        (t - 60) t \<le> 10" if s: "sorted (map snd calls)"
  proof -
    have s': "sorted (map snd (map (\<lambda>c. (''default_user'', snd c)) calls))"
      using s by (simp add: comp_def)
    have "served_in (fst (run_queries sqlparse driver str_v create_sql_query_tool calls)) calls
            (t - 60) t
          \<le> admitted_in (snd (run_calls (RateLimiter_init 10 60)
                                 (map (\<lambda>c. (''default_user'', snd c)) calls)))
               ''default_user'' (t - real_of_int 60) t"
      using served_le_admitted[of sqlparse driver str_v create_sql_query_tool calls "t - 60" t]
      by (simp add: create_sql_query_tool_def)
    also have "\<dots> \<le> nat 10" using s' by (rule window_bound)
    finally show ?thesis by simp
  qed
  show ?thesis
    using bound
    by (simp add: run_query_limiter run_query_refused run_queries_limiter allow_request_other)
qed

theorem run_query_fixed_identity_witness:
  "sorted (map snd (replicate 11 (''SELECT id FROM t'', 0 :: real))) \<and>
   served_in (fst (run_queries select_parser (table_driver [''id''] [[1], [2 :: int]]) str_int
                     create_sql_query_tool (replicate 11 (''SELECT id FROM t'', 0))))
     (replicate 11 (''SELECT id FROM t'', 0)) (0 - 60) 0 \<le> 10"
proof -
  have s: "sorted (map snd (replicate 11 (''SELECT id FROM t'', 0 :: real)))" by simp
  note t = run_query_fixed_identity[of select_parser "table_driver [''id''] [[1], [2 :: int]]"
             str_int create_sql_query_tool 0 "''SELECT id FROM t''"
             "replicate 11 (''SELECT id FROM t'', 0)" 0]
  note b = t[THEN conjunct2, THEN conjunct2, THEN conjunct2, THEN conjunct2, rule_format, OF s]
  show ?thesis
    apply (intro conjI)
     apply (rule s)
    apply (rule b)
    done
qed

text \<open>
  As stated, C10 has all callers share one window.  Every tool is built with a limiter
  of its own, and a tool is built for every message.  After ten invocations through one
  tool an eleventh through that tool is refused, while an invocation at the same
  instant through a tool built anew is served.
\<close>

theorem run_query_separate_windows_counterexample:
  "fst (run_query select_parser (table_driver [''id''] [[1], [2 :: int]]) str_int
          (snd (run_queries select_parser (table_driver [''id''] [[1], [2 :: int]]) str_int
                  create_sql_query_tool (replicate 10 (''SELECT id FROM t'', 0))))
          1 ''SELECT id FROM t'')
     = RATE_LIMIT_REFUSAL \<and>
   fst (run_query select_parser (table_driver [''id''] [[1], [2 :: int]]) str_int
          create_sql_query_tool 1 ''SELECT id FROM t'')
     = CHECK_MARK @ '' Query returned 2 row(s):'' @ [CHR 0x0A, CHR 0x0A] @ ''id'' @ [CHR 0x0A]
         @ replicate 29 CHR ''-'' @ [CHR 0x0A] @ ''1'' @ [CHR 0x0A] @ ''2'' @ [CHR 0x0A] \<and>
   CHECK_MARK @ '' Query returned 2 row(s):'' @ [CHR 0x0A, CHR 0x0A] @ ''id'' @ [CHR 0x0A]
         @ replicate 29 CHR ''-'' @ [CHR 0x0A] @ ''1'' @ [CHR 0x0A] @ ''2'' @ [CHR 0x0A]
     \<noteq> RATE_LIMIT_REFUSAL"
proof -
  let ?q = "''SELECT id FROM t''"
  let ?d = "table_driver [''id''] [[1], [2 :: int]]"
  let ?a = "snd (run_queries select_parser ?d str_int create_sql_query_tool (replicate 10 (?q, 0)))"
  have a: "?a = \<lparr>max_requests = 10, time_window = 60,
                requests = (\<lambda>u. [])(''default_user'' := replicate 10 0)\<rparr>"
    unfolding run_queries_limiter
    by (simp add: run_calls_def process_call_def allow_request_def RateLimiter_init_def Let_def
          create_sql_query_tool_def eval_nat_numeral)
  have d: "\<not> fst (allow_request ?a 1 ''default_user'')"
    unfolding a by (simp add: allow_request_def Let_def)
  have r1: "fst (run_query select_parser ?d str_int ?a 1 ?q) = RATE_LIMIT_REFUSAL"
    using d by (rule run_query_refused)
  have ok: "fst (allow_request create_sql_query_tool 1 ''default_user'')"
    by (simp add: allow_request_def Let_def create_sql_query_tool_def RateLimiter_init_def)
  have nl: "\<not> rate_limited create_sql_query_tool 1 (Some ''default_user'')"
    using ok by (simp add: rate_limited_def)
  have tv: "text_verdict select_parser ?q = Valid" by code_simp
  have v: "fst (validate select_parser create_sql_query_tool 1 ?q (Some ''default_user'')) = Valid"
    using nl tv by (simp add: validate_eq)
  have al: "add_limit ?q 100 = ''SELECT id FROM t LIMIT 100''" by code_simp
  have dr: "?d ''SELECT id FROM t LIMIT 100'' = Inr ([''id''], [[1], [2]])" by code_simp
  have s1: "str_int 1 = ''1''" by code_simp
  have s2: "str_int 2 = ''2''" by code_simp
  have n2: "str_nat (Suc (Suc 0)) = ''2''" by (simp add: str_nat.simps digits_def)
  have r2: "fst (run_query select_parser ?d str_int create_sql_query_tool 1 ?q)
     = CHECK_MARK @ '' Query returned 2 row(s):'' @ [CHR 0x0A, CHR 0x0A] @ ''id'' @ [CHR 0x0A]
         @ replicate 29 CHR ''-'' @ [CHR 0x0A] @ ''1'' @ [CHR 0x0A] @ ''2'' @ [CHR 0x0A]"
    using v al dr
    by (simp add: run_query_def Let_def execute_query_admitted py_dict_def cell_def s1 s2 n2
          CHECK_MARK_def eval_nat_numeral)
  have ne: "CHECK_MARK @ '' Query returned 2 row(s):'' @ [CHR 0x0A, CHR 0x0A] @ ''id'' @ [CHR 0x0A]
         @ replicate 29 CHR ''-'' @ [CHR 0x0A] @ ''1'' @ [CHR 0x0A] @ ''2'' @ [CHR 0x0A]
     \<noteq> RATE_LIMIT_REFUSAL"
    by (simp add: CHECK_MARK_def CROSS_MARK_def RATE_LIMIT_REFUSAL_def)
  show ?thesis
    apply (intro conjI)
      apply (rule r1)
     apply (rule r2)
    apply (rule ne)
    done
qed

section \<open>Properties of the agent loop\<close>

lemma dict_set_keys: "fst ` set (dict_set d k v) = insert k (fst ` set d)"
  by (induction d k v rule: dict_set.induct) auto

lemma dict_set_subset: "set (dict_set d k v) \<subseteq> insert (k, v) (set d)"
  by (induction d k v rule: dict_set.induct) auto

lemma foldl_dict_set_keys:
  "fst ` set (foldl (\<lambda>d kv. dict_set d (fst kv) (snd kv)) d kvs)
     = fst ` set d \<union> fst ` set kvs"
  by (induction kvs arbitrary: d) (simp_all add: dict_set_keys)

lemma foldl_dict_set_subset:
  "set (foldl (\<lambda>d kv. dict_set d (fst kv) (snd kv)) d kvs) \<subseteq> set d \<union> set kvs"
proof (induction kvs arbitrary: d)
  case Nil
  show ?case by simp
next
  case (Cons kv kvs)
  have "set (dict_set d (fst kv) (snd kv)) \<subseteq> insert kv (set d)"
    using dict_set_subset[of d "fst kv" "snd kv"] by simp
  with Cons[of "dict_set d (fst kv) (snd kv)"] show ?case by auto
qed

lemma tool_map_keys: "set (map fst (tool_map tools)) = set (map name tools)"
  by (simp add: tool_map_def py_dict_def foldl_dict_set_keys image_image)

lemma tool_map_None_iff: "map_of (tool_map tools) a = None \<longleftrightarrow> a \<notin> set (map name tools)"
  using tool_map_keys[of tools] by (simp add: map_of_eq_None_iff)

lemma tool_map_Some: "map_of (tool_map tools) a = Some tool \<Longrightarrow> tool \<in> set tools"
proof -
  assume "map_of (tool_map tools) a = Some tool"
  then have "(a, tool) \<in> set (tool_map tools)" by (rule map_of_SomeD)
  then have "(a, tool) \<in> set (map (\<lambda>tool. (name tool, tool)) tools)"
    using foldl_dict_set_subset[of "[]" "map (\<lambda>tool. (name tool, tool)) tools"]
    by (auto simp: tool_map_def py_dict_def)
  then show ?thesis by auto
qed

lemma agent_iteration_unparseable:
  assumes "agent (prompt_args tools input_text chat_history sp) w = (Inr response, w1)"
    and "\<not> py_in ''Final Answer:'' response"
    and "\<not> (py_in ''Action:'' response \<and> py_in ''Action Input:'' response)"
  shows "agent_iteration agent tools input_text chat_history sp w
           = (Return (py_strip (last (py_split ''Thought:'' response))), w1)"
  using assms by (auto simp add: agent_iteration_def)

lemma agent_iteration_unknown_tool:
  assumes "agent (prompt_args tools input_text chat_history sp) w = (Inr response, w1)"
    and "\<not> py_in ''Final Answer:'' response"
    and "py_in ''Action:'' response" and "py_in ''Action Input:'' response"
    and "map_of (tool_map tools) (action_part response) = None"
  shows "agent_iteration agent tools input_text chat_history sp w
           = (Continue (sp @ [CHR 0x0A] @ response @ [CHR 0x0A] @ ''Observation: ''
                          @ unknown_tool_observation (action_part response) (map fst (tool_map tools))
                          @ [CHR 0x0A] @ ''Thought: ''), w1)"
  using assms by (simp add: agent_iteration_def)

lemma agent_iteration_tool_ok:
  assumes "agent (prompt_args tools input_text chat_history sp) w = (Inr response, w1)"
    and "\<not> py_in ''Final Answer:'' response"
    and "py_in ''Action:'' response" and "py_in ''Action Input:'' response"
    and "map_of (tool_map tools) (action_part response) = Some tool"
    and "func tool (action_input_part response) w1 = (Inr observation, w2)"
  shows "agent_iteration agent tools input_text chat_history sp w
           = (Continue (sp @ [CHR 0x0A] @ response @ [CHR 0x0A] @ ''Observation: ''
                          @ observation @ [CHR 0x0A] @ ''Thought: ''), w2)"
  using assms by (simp add: agent_iteration_def)

lemma agent_loop_exhausts:
  assumes model: "\<And>args w. \<exists>response w1. agent args w = (Inr response, w1) \<and>
             \<not> py_in ''Final Answer:'' response \<and> py_in ''Action:'' response \<and>
             py_in ''Action Input:'' response \<and>
             map_of (tool_map tools) (action_part response) \<noteq> None"
    and tools_ok: "\<And>tool x w. tool \<in> set tools \<Longrightarrow> \<exists>observation w2. func tool x w = (Inr observation, w2)"
  shows "answer (agent_loop agent tools input_text chat_history n k sp w) = REPHRASE \<and>
         iterations (agent_loop agent tools input_text chat_history n k sp w) = k + n"
proof (induction n arbitrary: k sp w)
  case 0
  show ?case by simp
next
  case (Suc n)
  from model[of "prompt_args tools input_text chat_history sp" w]
  obtain response w1 where r: "agent (prompt_args tools input_text chat_history sp) w = (Inr response, w1)"
    "\<not> py_in ''Final Answer:'' response" "py_in ''Action:'' response"
    "py_in ''Action Input:'' response"
    "map_of (tool_map tools) (action_part response) \<noteq> None"
    by blast
  then obtain tool where t: "map_of (tool_map tools) (action_part response) = Some tool" by auto
  from tools_ok[OF tool_map_Some[OF t], of "action_input_part response" w1]
  obtain observation w2 where o: "func tool (action_input_part response) w1 = (Inr observation, w2)"
    by blast
  have step: "agent_iteration agent tools input_text chat_history sp w
           = (Continue (sp @ [CHR 0x0A] @ response @ [CHR 0x0A] @ ''Observation: ''
                          @ observation @ [CHR 0x0A] @ ''Thought: ''), w2)"
    using r(1-4) t o by (rule agent_iteration_tool_ok)
  show ?case using Suc.IH by (simp add: step)
qed

lemma dict_set_fresh: "k \<notin> fst ` set d \<Longrightarrow> dict_set d k v = d @ [(k, v)]"
  by (induction d k v rule: dict_set.induct) auto

lemma foldl_dict_set_distinct:
  "distinct (map fst (d @ kvs)) \<Longrightarrow> foldl (\<lambda>d kv. dict_set d (fst kv) (snd kv)) d kvs = d @ kvs"
proof (induction kvs arbitrary: d)
  case Nil
  show ?case by simp
next
  case (Cons kv kvs)
  then have f: "fst kv \<notin> fst ` set d" by auto
  have "distinct (map fst ((d @ [kv]) @ kvs))" using Cons.prems by simp
  from Cons.IH[OF this] show ?case by (simp add: dict_set_fresh[OF f])
qed

lemma tool_map_distinct:
  "distinct (map name tools) \<Longrightarrow> map fst (tool_map tools) = map name tools"
  using foldl_dict_set_distinct[of "[]" "map (\<lambda>tool. (name tool, tool)) tools"]
  by (simp add: tool_map_def py_dict_def comp_def)

lemmas agent_eval = execute_agent_def agent_iteration_def prompt_args_def action_part_def
  action_input_part_def tool_map_def py_dict_def py_split_def py_strip_def is_space_def
  space_chars_def scripted_agent_def echo_tool_def raising_tool_def iteration_error_def
  unknown_tool_observation_def eval_nat_numeral

lemma agent_loop_bounded:
  "iterations (agent_loop agent tools input_text chat_history n k sp w) \<le> k + n"
proof (induction n arbitrary: k sp w)
  case 0
  show ?case by simp
next
  case (Suc n)
  obtain st w1 where s: "agent_iteration agent tools input_text chat_history sp w = (st, w1)"
    by (cases "agent_iteration agent tools input_text chat_history sp w")
  show ?case
  proof (cases st)
    case (Return reply)
    then show ?thesis using s by simp
  next
    case (Continue sp1)
    then show ?thesis using s Suc[of "Suc k" sp1 w1] by simp
  qed
qed

text \<open>The loop never starts more passes than the budget, whatever the model and the tools do.\<close>

lemma execute_agent_bounded:
  "iterations (execute_agent agent tools input_text chat_history max_iterations w)
     \<le> nat max_iterations"
  using agent_loop_bounded[of agent tools input_text chat_history "nat max_iterations" 0 "[]" w]
  by (simp add: execute_agent_def)

lemma agent_loop_counts:
  assumes model: "\<And>args w. \<exists>response w1. agent args w = (Inr response, w1) \<and>
             \<not> py_in ''Final Answer:'' response \<and> py_in ''Action:'' response \<and>
             py_in ''Action Input:'' response \<and>
             map_of (tool_map tools) (action_part response) \<noteq> None"
    and tools_ok: "\<And>tool x w. tool \<in> set tools \<Longrightarrow> \<exists>observation w2. func tool x w = (Inr observation, w2)"
    and cm: "\<And>args w response w1. agent args w = (Inr response, w1) \<Longrightarrow>
               model_calls w1 = Suc (model_calls w) \<and> tool_calls w1 = tool_calls w"
    and ct: "\<And>tool x w observation w2. tool \<in> set tools \<Longrightarrow> func tool x w = (Inr observation, w2) \<Longrightarrow>
               model_calls w2 = model_calls w \<and> tool_calls w2 = Suc (tool_calls w)"
  shows "model_calls (world (agent_loop agent tools input_text chat_history n k sp w))
           = model_calls w + n \<and>
         tool_calls (world (agent_loop agent tools input_text chat_history n k sp w))
           = tool_calls w + n"
proof (induction n arbitrary: k sp w)
  case 0
  show ?case by simp
next
  case (Suc n)
  from model[of "prompt_args tools input_text chat_history sp" w]
  obtain response w1 where r: "agent (prompt_args tools input_text chat_history sp) w = (Inr response, w1)"
    "\<not> py_in ''Final Answer:'' response" "py_in ''Action:'' response"
    "py_in ''Action Input:'' response"
    "map_of (tool_map tools) (action_part response) \<noteq> None"
    by blast
  then obtain tool where t: "map_of (tool_map tools) (action_part response) = Some tool" by auto
  have mem: "tool \<in> set tools" using t by (rule tool_map_Some)
  from tools_ok[OF mem, of "action_input_part response" w1]
  obtain observation w2 where o: "func tool (action_input_part response) w1 = (Inr observation, w2)"
    by blast
  have step: "agent_iteration agent tools input_text chat_history sp w
           = (Continue (sp @ [CHR 0x0A] @ response @ [CHR 0x0A] @ ''Observation: ''
                          @ observation @ [CHR 0x0A] @ ''Thought: ''), w2)"
    using r(1-4) t o by (rule agent_iteration_tool_ok)
  have c1: "model_calls w1 = Suc (model_calls w) \<and> tool_calls w1 = tool_calls w"
    using r(1) by (rule cm)
  have c2: "model_calls w2 = model_calls w1 \<and> tool_calls w2 = Suc (tool_calls w1)"
    using mem o by (rule ct)
  show ?case using Suc.IH[of "Suc k" _ w2] c1 c2 by (simp add: step)
qed

text \<open>
  Claim C6, as the program has it.  Let the model answer every call with a text that has
  no final-answer marker, has both action markers and names a tool of the registry, and
  let every call of a tool return an observation.  Then \<open>execute_agent\<close> runs exactly
  \<open>max_iterations\<close> passes of the loop (none for a negative budget) and returns the
  fixed message asking to rephrase the question.  Each pass calls the model once and a
  tool once: however the world counts the calls of the model and the calls of tools, both
  counts have grown by \<open>max_iterations\<close> when the function returns.
\<close>

theorem execute_agent_budget:
  assumes "\<And>args w. \<exists>response w1. agent args w = (Inr response, w1) \<and>
             \<not> py_in ''Final Answer:'' response \<and> py_in ''Action:'' response \<and>
             py_in ''Action Input:'' response \<and>
             map_of (tool_map tools) (action_part response) \<noteq> None"
    and "\<And>tool x w. tool \<in> set tools \<Longrightarrow> \<exists>observation w2. func tool x w = (Inr observation, w2)"
  shows "answer (execute_agent agent tools input_text chat_history max_iterations w) = REPHRASE \<and>
         iterations (execute_agent agent tools input_text chat_history max_iterations w)
           = nat max_iterations \<and>
         ((\<forall>args w response w1. agent args w = (Inr response, w1) \<longrightarrow>
              model_calls w1 = Suc (model_calls w) \<and> tool_calls w1 = tool_calls w) \<and>
          (\<forall>tool x w observation w2. tool \<in> set tools \<and> func tool x w = (Inr observation, w2) \<longrightarrow>
              model_calls w2 = model_calls w \<and> tool_calls w2 = Suc (tool_calls w))
          \<longrightarrow>
            model_calls (world (execute_agent agent tools input_text chat_history max_iterations w))
              = model_calls w + nat max_iterations \<and>
            tool_calls (world (execute_agent agent tools input_text chat_history max_iterations w))
              = tool_calls w + nat max_iterations)"
proof -
  have a: "answer (agent_loop agent tools input_text chat_history (nat max_iterations) 0 [] w) = REPHRASE \<and>
        iterations (agent_loop agent tools input_text chat_history (nat max_iterations) 0 [] w)
          = 0 + nat max_iterations"
    using assms by (rule agent_loop_exhausts)
  have b: "model_calls (world (agent_loop agent tools input_text chat_history (nat max_iterations) 0 [] w))
              = model_calls w + nat max_iterations \<and>
           tool_calls (world (agent_loop agent tools input_text chat_history (nat max_iterations) 0 [] w))
              = tool_calls w + nat max_iterations"
    if cm: "\<forall>args w response w1. agent args w = (Inr response, w1) \<longrightarrow>
              model_calls w1 = Suc (model_calls w) \<and> tool_calls w1 = tool_calls w"
      and ct: "\<forall>tool x w observation w2. tool \<in> set tools \<and> func tool x w = (Inr observation, w2) \<longrightarrow>
              model_calls w2 = model_calls w \<and> tool_calls w2 = Suc (tool_calls w)"
  proof (rule agent_loop_counts)
    show "\<And>args w. \<exists>response w1. agent args w = (Inr response, w1) \<and>
             \<not> py_in ''Final Answer:'' response \<and> py_in ''Action:'' response \<and>
             py_in ''Action Input:'' response \<and>
             map_of (tool_map tools) (action_part response) \<noteq> None"
      by (rule assms(1))
    show "\<And>tool x w. tool \<in> set tools \<Longrightarrow> \<exists>observation w2. func tool x w = (Inr observation, w2)"
      by (rule assms(2))
    show "\<And>args w response w1. agent args w = (Inr response, w1) \<Longrightarrow>
               model_calls w1 = Suc (model_calls w) \<and> tool_calls w1 = tool_calls w"
      using cm by blast
    show "\<And>tool x w observation w2. tool \<in> set tools \<Longrightarrow> func tool x w = (Inr observation, w2) \<Longrightarrow>
               model_calls w2 = model_calls w \<and> tool_calls w2 = Suc (tool_calls w)"
      using ct by blast
  qed
  from a b show ?thesis by (simp add: execute_agent_def)
qed

theorem execute_agent_budget_witness:
  "execute_agent
     (counting_agent (''Action: query_database'' @ [CHR 0x0A] @ ''Action Input: SELECT 1''))
     [counting_tool ''query_database'', counting_tool ''get_database_schema'']
     ''How many users?'' ''No previous conversation.'' 5 (0, 0)
   = \<lparr>answer = REPHRASE, iterations = 5, world = (5, 5)\<rparr>"
proof -
  let ?r = "''Action: query_database'' @ [CHR 0x0A] @ ''Action Input: SELECT 1''"
  let ?tools = "[counting_tool ''query_database'', counting_tool ''get_database_schema'']"
  let ?e = "execute_agent (counting_agent ?r) ?tools ''How many users?''
              ''No previous conversation.'' 5 (0, 0)"
  have r: "\<not> py_in ''Final Answer:'' ?r \<and> py_in ''Action:'' ?r \<and> py_in ''Action Input:'' ?r \<and>
           map_of (tool_map ?tools) (action_part ?r) \<noteq> None"
    by (simp add: agent_eval counting_tool_def)
  have model: "\<And>args w. \<exists>response w1. counting_agent ?r args w = (Inr response, w1) \<and>
             \<not> py_in ''Final Answer:'' response \<and> py_in ''Action:'' response \<and>
             py_in ''Action Input:'' response \<and>
             map_of (tool_map ?tools) (action_part response) \<noteq> None"
    using r by (simp add: counting_agent_def)
  have tools_ok: "\<And>tool x w. tool \<in> set ?tools \<Longrightarrow> \<exists>observation w2. func tool x w = (Inr observation, w2)"
    by (auto simp: counting_tool_def)
  have cm: "\<forall>args w response w1. counting_agent ?r args w = (Inr response, w1) \<longrightarrow>
              fst w1 = Suc (fst w) \<and> snd w1 = snd w"
    by (auto simp: counting_agent_def)
  have ct: "\<forall>tool x w observation w2. tool \<in> set ?tools \<and> func tool x w = (Inr observation, w2) \<longrightarrow>
              fst w2 = fst w \<and> snd w2 = Suc (snd w)"
    by (auto simp: counting_tool_def)
  have t: "answer ?e = REPHRASE \<and> iterations ?e = nat 5 \<and>
         ((\<forall>args w response w1. counting_agent ?r args w = (Inr response, w1) \<longrightarrow>
              fst w1 = Suc (fst w) \<and> snd w1 = snd w) \<and>
          (\<forall>tool x w observation w2. tool \<in> set ?tools \<and> func tool x w = (Inr observation, w2) \<longrightarrow>
              fst w2 = fst w \<and> snd w2 = Suc (snd w))
          \<longrightarrow> fst (world ?e) = fst (0 :: nat, 0 :: nat) + nat 5 \<and>
               snd (world ?e) = snd (0 :: nat, 0 :: nat) + nat 5)"
    using model tools_ok by (rule execute_agent_budget)
  from t cm ct have "answer ?e = REPHRASE" "iterations ?e = 5" "fst (world ?e) = 5" "snd (world ?e) = 5"
    by simp_all
  then show ?thesis by (cases ?e) (auto simp: prod_eq_iff)
qed

text \<open>
  As stated, C6 puts no condition on the tools.  A call of a known tool that raises is
  caught by the handler around the whole pass, which returns the error message at once:
  the episode ends after one pass and not with the message asking to rephrase.
\<close>

theorem execute_agent_budget_counterexample:
  "\<not> py_in ''Final Answer:'' (''Action: query_database'' @ [CHR 0x0A] @ ''Action Input: SELECT 1'') \<and>
   py_in ''Action:'' (''Action: query_database'' @ [CHR 0x0A] @ ''Action Input: SELECT 1'') \<and>
   py_in ''Action Input:'' (''Action: query_database'' @ [CHR 0x0A] @ ''Action Input: SELECT 1'') \<and>
   action_part (''Action: query_database'' @ [CHR 0x0A] @ ''Action Input: SELECT 1'')
     \<in> set (map name [raising_tool ''query_database'']) \<and>
   execute_agent
     (scripted_agent (''Action: query_database'' @ [CHR 0x0A] @ ''Action Input: SELECT 1''))
     [raising_tool ''query_database''] ''How many users?'' ''No previous conversation.'' 5 0
     = \<lparr>answer = ''I encountered an error while processing your request: connection lost'',
        iterations = 1, world = 1\<rparr> \<and>
   ''I encountered an error while processing your request: connection lost'' \<noteq> REPHRASE"
  by (simp add: agent_eval REPHRASE_def)

text \<open>
  Claim C8, as the program has it.  When the model returns a text with no final-answer
  marker and without both action markers, the pass returns from the function: the
  episode ends on that pass.  The answer is the part of the text after its last marker
  \<open>Thought:\<close> without the surrounding white space; for a text without that marker
  it is the whole text without the surrounding white space.
\<close>

theorem unparseable_output_terminates:
  assumes "agent (prompt_args tools input_text chat_history sp) w = (Inr response, w1)"
    and "\<not> py_in ''Final Answer:'' response"
    and "\<not> (py_in ''Action:'' response \<and> py_in ''Action Input:'' response)"
  shows "agent_loop agent tools input_text chat_history (Suc n) k sp w
           = \<lparr>answer = py_strip (last (py_split ''Thought:'' response)), iterations = Suc k,
              world = w1\<rparr> \<and>
         (\<not> py_in ''Thought:'' response \<longrightarrow>
            answer (agent_loop agent tools input_text chat_history (Suc n) k sp w)
              = py_strip response)"
proof -
  have "agent_iteration agent tools input_text chat_history sp w
           = (Return (py_strip (last (py_split ''Thought:'' response))), w1)"
    using assms by (rule agent_iteration_unparseable)
  then show ?thesis by (simp add: py_split_absent)
qed

theorem unparseable_output_terminates_witness:
  "execute_agent (scripted_agent ''  I do not know.  '') [echo_tool ''query_database'']
     ''How many users?'' ''No previous conversation.'' 5 0
     = \<lparr>answer = ''I do not know.'', iterations = 1, world = 0\<rparr>"
proof -
  let ?r = "''  I do not know.  ''"
  let ?tools = "[echo_tool ''query_database'']"
  have a: "scripted_agent ?r (prompt_args ?tools ''How many users?'' ''No previous conversation.'' []) 0
             = (Inr ?r, 0)"
    by (simp add: scripted_agent_def)
  have b: "\<not> py_in ''Final Answer:'' ?r" by simp
  have c: "\<not> (py_in ''Action:'' ?r \<and> py_in ''Action Input:'' ?r)" by simp
  have d: "\<not> py_in ''Thought:'' ?r" by simp
  have e: "py_strip ?r = ''I do not know.''" by (simp add: py_strip_def is_space_def space_chars_def)
  have f: "execute_agent (scripted_agent ?r) ?tools ''How many users?'' ''No previous conversation.'' 5 0
             = agent_loop (scripted_agent ?r) ?tools ''How many users?'' ''No previous conversation.''
                 (Suc 4) 0 [] 0"
    by (simp add: execute_agent_def eval_nat_numeral)
  from unparseable_output_terminates[where agent = "scripted_agent ?r" and tools = ?tools
         and input_text = "''How many users?''" and chat_history = "''No previous conversation.''"
         and sp = "[]" and w = 0 and response = ?r and ?w1.0 = 0 and n = 4 and k = 0, OF a b c]
  show ?thesis unfolding f using d e by (simp add: py_split_absent)
qed

text \<open>
  As stated, C8 has the raw text of the model as the answer.  For the text
  \<open>Thought: The table is empty.\<close> the answer is \<open>The table is empty.\<close>, which is
  not the raw text.
\<close>

theorem unparseable_output_raw_counterexample:
  "\<not> py_in ''Final Answer:'' ''Thought: The table is empty.'' \<and>
   \<not> (py_in ''Action:'' ''Thought: The table is empty.'' \<and>
      py_in ''Action Input:'' ''Thought: The table is empty.'') \<and>
   execute_agent (scripted_agent ''Thought: The table is empty.'') [echo_tool ''query_database'']
     ''How many users?'' ''No previous conversation.'' 5 0
     = \<lparr>answer = ''The table is empty.'', iterations = 1, world = 0\<rparr> \<and>
   ''The table is empty.'' \<noteq> ''Thought: The table is empty.''"
  by (simp add: agent_eval)

lemma agent_iteration_final:
  assumes "agent (prompt_args tools input_text chat_history sp) w = (Inr response, w1)"
    and "py_in ''Final Answer:'' response"
  shows "agent_iteration agent tools input_text chat_history sp w
           = (Return (py_strip (last (py_split ''Final Answer:'' response))), w1)"
  using assms by (simp add: agent_iteration_def)

text \<open>
  Claim C9, as the program has it.  When the model returns a text that is read as an
  action (no final-answer marker, both action markers) and whose action is not the name
  of a tool of the registry, the pass appends to the scratchpad the text of the model and
  an observation which says that the tool was not found and lists the names of the
  registry, joined by commas; no tool is called and the pass does not return.  When a
  pass of the budget is left, the model is called again on the scratchpad so extended,
  and a final answer it then gives is the answer of the episode.  When this was the last
  pass of the budget, the episode ends with the message asking to rephrase.  The names
  listed are those of the tools, in their order when they are distinct.
\<close>

theorem unknown_tool_recovery:
  assumes "agent (prompt_args tools input_text chat_history sp) w = (Inr response, w1)"
    and "\<not> py_in ''Final Answer:'' response"
    and "py_in ''Action:'' response" and "py_in ''Action Input:'' response"
    and "action_part response \<notin> set (map name tools)"
  shows "\<exists>observation sp'.
           observation = ''Error - Tool '' @ [CHR 0x27] @ action_part response @ [CHR 0x27]
                           @ '' not found. Available tools: ''
                           @ py_join '', '' (map fst (tool_map tools)) \<and>
           sp' = sp @ [CHR 0x0A] @ response @ [CHR 0x0A] @ ''Observation: '' @ observation
                   @ [CHR 0x0A] @ ''Thought: '' \<and>
           agent_iteration agent tools input_text chat_history sp w = (Continue sp', w1) \<and>
           agent_loop agent tools input_text chat_history (Suc 0) k sp w
             = \<lparr>answer = REPHRASE, iterations = Suc k, world = w1\<rparr> \<and>
           (\<forall>n. agent_loop agent tools input_text chat_history (Suc (Suc n)) k sp w
                  = (case agent_iteration agent tools input_text chat_history sp' w1 of
                       (Return reply, w2) \<Rightarrow>
                         \<lparr>answer = reply, iterations = Suc (Suc k), world = w2\<rparr>
                     | (Continue sp'', w2) \<Rightarrow>
                         agent_loop agent tools input_text chat_history n (Suc (Suc k)) sp'' w2)) \<and>
           (\<forall>n response2 w2.
              agent (prompt_args tools input_text chat_history sp') w1 = (Inr response2, w2) \<and>
              py_in ''Final Answer:'' response2 \<longrightarrow>
                agent_loop agent tools input_text chat_history (Suc (Suc n)) k sp w
                  = \<lparr>answer = py_strip (last (py_split ''Final Answer:'' response2)),
                     iterations = Suc (Suc k), world = w2\<rparr>) \<and>
           py_in (py_join '', '' (map fst (tool_map tools))) observation \<and>
           set (map fst (tool_map tools)) = set (map name tools) \<and>
           (distinct (map name tools) \<longrightarrow> map fst (tool_map tools) = map name tools)"
proof -
  define observation where "observation = ''Error - Tool '' @ [CHR 0x27] @ action_part response
      @ [CHR 0x27] @ '' not found. Available tools: '' @ py_join '', '' (map fst (tool_map tools))"
  define sp' where "sp' = sp @ [CHR 0x0A] @ response @ [CHR 0x0A] @ ''Observation: '' @ observation
                   @ [CHR 0x0A] @ ''Thought: ''"
  have none: "map_of (tool_map tools) (action_part response) = None"
    using assms(5) by (simp add: tool_map_None_iff)
  have "agent_iteration agent tools input_text chat_history sp w
           = (Continue (sp @ [CHR 0x0A] @ response @ [CHR 0x0A] @ ''Observation: ''
                          @ unknown_tool_observation (action_part response) (map fst (tool_map tools))
                          @ [CHR 0x0A] @ ''Thought: ''), w1)"
    using assms(1-4) none by (rule agent_iteration_unknown_tool)
  then have step: "agent_iteration agent tools input_text chat_history sp w = (Continue sp', w1)"
    by (simp add: sp'_def observation_def unknown_tool_observation_def)
  have last_pass: "agent_loop agent tools input_text chat_history (Suc 0) k sp w
             = \<lparr>answer = REPHRASE, iterations = Suc k, world = w1\<rparr>"
    by (simp add: step)
  have next_pass: "agent_loop agent tools input_text chat_history (Suc (Suc n)) k sp w
                  = (case agent_iteration agent tools input_text chat_history sp' w1 of
                       (Return reply, w2) \<Rightarrow>
                         \<lparr>answer = reply, iterations = Suc (Suc k), world = w2\<rparr>
                     | (Continue sp'', w2) \<Rightarrow>
                         agent_loop agent tools input_text chat_history n (Suc (Suc k)) sp'' w2)" for n
    by (simp add: step)
  have answered: "agent_loop agent tools input_text chat_history (Suc (Suc n)) k sp w
                  = \<lparr>answer = py_strip (last (py_split ''Final Answer:'' response2)),
                     iterations = Suc (Suc k), world = w2\<rparr>"
    if "agent (prompt_args tools input_text chat_history sp') w1 = (Inr response2, w2)"
      and "py_in ''Final Answer:'' response2" for n response2 w2
  proof -
    have "agent_iteration agent tools input_text chat_history sp' w1
           = (Return (py_strip (last (py_split ''Final Answer:'' response2))), w2)"
      using that by (rule agent_iteration_final)
    then show ?thesis unfolding next_pass by simp
  qed
  have listed: "py_in (py_join '', '' (map fst (tool_map tools))) observation"
    unfolding observation_def
    using py_in_append[of "py_join '', '' (map fst (tool_map tools))"
            "''Error - Tool '' @ [CHR 0x27] @ action_part response @ [CHR 0x27]
                           @ '' not found. Available tools: ''"]
    by simp
  show ?thesis
    apply (rule exI[of _ observation])
    apply (rule exI[of _ sp'])
    apply (intro conjI allI impI)
            apply (rule observation_def)
           apply (rule sp'_def)
          apply (rule step)
         apply (rule last_pass)
        apply (rule next_pass)
       apply (erule conjE, erule (1) answered)
      apply (rule listed)
     apply (rule tool_map_keys)
    apply (erule tool_map_distinct)
    done
qed

theorem unknown_tool_recovery_witness:
  "execute_agent self_correcting_agent
     [counting_tool ''query_database'', counting_tool ''get_database_schema'']
     ''How many users?'' ''No previous conversation.'' 5 (0, 0)
   = \<lparr>answer = ''42'', iterations = 2, world = (2, 0)\<rparr>"
proof -
  let ?r = "''Action: drop_all'' @ [CHR 0x0A] @ ''Action Input: x''"
  let ?tools = "[counting_tool ''query_database'', counting_tool ''get_database_schema'']"
  let ?sp = "[CHR 0x0A] @ ?r @ [CHR 0x0A]
          @ ''Observation: Error - Tool 'drop_all' not found. Available tools: query_database, get_database_schema''
          @ [CHR 0x0A] @ ''Thought: ''"
  have a: "self_correcting_agent
             (prompt_args ?tools ''How many users?'' ''No previous conversation.'' []) (0, 0)
             = (Inr ?r, (1, 0))"
    by (simp add: self_correcting_agent_def prompt_args_def)
  have b: "\<not> py_in ''Final Answer:'' ?r" by simp
  have c: "py_in ''Action:'' ?r" by simp
  have d: "py_in ''Action Input:'' ?r" by simp
  have ap: "action_part ?r = ''drop_all''" by (simp add: agent_eval)
  have e: "action_part ?r \<notin> set (map name ?tools)" unfolding ap by (simp add: counting_tool_def)
  have dist: "distinct (map name ?tools)" by (simp add: counting_tool_def)
  have a2: "self_correcting_agent
             (prompt_args ?tools ''How many users?'' ''No previous conversation.'' ?sp) (1, 0)
             = (Inr ''Final Answer: 42'', (2, 0))"
    by (simp add: self_correcting_agent_def prompt_args_def)
  have f: "py_in ''Final Answer:'' ''Final Answer: 42''" by simp
  have g: "py_strip (last (py_split ''Final Answer:'' ''Final Answer: 42'')) = ''42''"
    by (simp add: py_split_def py_strip_def is_space_def space_chars_def)
  have h: "execute_agent self_correcting_agent ?tools ''How many users?''
             ''No previous conversation.'' 5 (0, 0)
           = agent_loop self_correcting_agent ?tools ''How many users?''
               ''No previous conversation.'' (Suc (Suc 3)) 0 [] (0, 0)"
    by (simp add: execute_agent_def eval_nat_numeral)
  from unknown_tool_recovery[where agent = self_correcting_agent and tools = ?tools
         and input_text = "''How many users?''" and chat_history = "''No previous conversation.''"
         and sp = "[]" and w = "(0, 0)" and response = ?r and ?w1.0 = "(1, 0)" and k = 0,
         OF a b c d e]
  obtain observation sp' where o:
    "observation = ''Error - Tool '' @ [CHR 0x27] @ action_part ?r @ [CHR 0x27]
                           @ '' not found. Available tools: ''
                           @ py_join '', '' (map fst (tool_map ?tools))"
    "sp' = [] @ [CHR 0x0A] @ ?r @ [CHR 0x0A] @ ''Observation: '' @ observation
                   @ [CHR 0x0A] @ ''Thought: ''"
    "\<forall>n response2 w2.
              self_correcting_agent
                (prompt_args ?tools ''How many users?'' ''No previous conversation.'' sp') (1, 0)
                  = (Inr response2, w2) \<and>
              py_in ''Final Answer:'' response2 \<longrightarrow>
                agent_loop self_correcting_agent ?tools ''How many users?''
                    ''No previous conversation.'' (Suc (Suc n)) 0 [] (0, 0)
                  = \<lparr>answer = py_strip (last (py_split ''Final Answer:'' response2)),
                     iterations = Suc (Suc 0), world = w2\<rparr>"
    "distinct (map name ?tools) \<longrightarrow> map fst (tool_map ?tools) = map name ?tools"
    by blast
  have sp: "sp' = ?sp"
    using o(1,2,4) dist unfolding ap by (simp add: counting_tool_def)
  from o(3)[rule_format, of "''Final Answer: 42''" "(2, 0)" 3] a2 f
  have "agent_loop self_correcting_agent ?tools ''How many users?''
                    ''No previous conversation.'' (Suc (Suc 3)) 0 [] (0, 0)
          = \<lparr>answer = py_strip (last (py_split ''Final Answer:'' ''Final Answer: 42'')),
             iterations = Suc (Suc 0), world = (2, 0)\<rparr>"
    unfolding sp by blast
  then show ?thesis unfolding h g by simp
qed

text \<open>
  As stated, C9 has the episode go on to the next pass after every such text.  With a
  budget of one pass the episode ends right after the observation: the model is called
  once and never sees the observation.
\<close>

theorem unknown_tool_last_pass_counterexample:
  "\<not> py_in ''Final Answer:'' (''Action: drop_all'' @ [CHR 0x0A] @ ''Action Input: x'') \<and>
   py_in ''Action:'' (''Action: drop_all'' @ [CHR 0x0A] @ ''Action Input: x'') \<and>
   py_in ''Action Input:'' (''Action: drop_all'' @ [CHR 0x0A] @ ''Action Input: x'') \<and>
   action_part (''Action: drop_all'' @ [CHR 0x0A] @ ''Action Input: x'')
     \<notin> set (map name [counting_tool ''query_database'', counting_tool ''get_database_schema'']) \<and>
   execute_agent
     (counting_agent (''Action: drop_all'' @ [CHR 0x0A] @ ''Action Input: x''))
     [counting_tool ''query_database'', counting_tool ''get_database_schema'']
     ''How many users?'' ''No previous conversation.'' 1 (0, 0)
   = \<lparr>answer = REPHRASE, iterations = 1, world = (1, 0)\<rparr>"
  by (simp add: agent_eval counting_agent_def counting_tool_def)

end
